theory Spec2Isabelle
  imports Main "HOL-Library.Word"
begin

section \<open>JSON values and a model of the built-in codec\<close>

text \<open>
  The facade of \<^verbatim>\<open>src/PubSub.ts\<close> hands \<^verbatim>\<open>JSON.stringify\<close> the envelope it
  publishes. The built-ins are not code of the repository; this section models them on
  the values of the datatype \<open>json\<close>, which are the JavaScript values that survive
  serialisation and whose numbers are integers: a string is the list of the bytes of its
  UTF-8 encoding, an object is the list of its own enumerable properties in order.
  \<open>JSON_stringify\<close> follows the built-in serialiser without indentation: no white
  space, the short escapes for the characters it has them for, \<^verbatim>\<open>\u00XX\<close> in
  lower-case hexadecimal for the other control characters, every other byte as it is,
  an integer in decimal digits.

  \<open>JSON_parse\<close> follows the built-in parser on the texts that denote such values:
  white space between tokens, the three literals, integer numerals, strings with their
  escapes (\<^verbatim>\<open>\uXXXX\<close> gives the UTF-8 bytes of the code point), arrays and
  objects. The nesting is followed with a counter that starts at the length of the text;
  a larger one reads the same (\<open>JSON_parse_fuel\<close> below).

  Where the model ends: a JavaScript number is a double, and a number with a fraction,
  or one that the serialiser writes with an exponent (from \<^verbatim>\<open>1e21\<close> on), has no
  value in \<open>json\<close>; \<open>JSON_parse\<close> reads no numeral with a fraction or an
  exponent and no escaped surrogate, and keeps the members of an object as the text has
  them, a repeated key included. Nothing below is stated about such values and texts.
\<close>

datatype json =
    JNull
  | JBool bool
  | JNum int
  | JStr string
  | JArr "json list"
  | JObj "(string \<times> json) list"

definition hex_digit :: "nat \<Rightarrow> char" where
  "hex_digit n = (if n < 10 then char_of (48 + n) else char_of (87 + n))"

definition escape_char :: "char \<Rightarrow> string" where
  "escape_char c =
     (if c = CHR 0x22 then [CHR 0x5C, CHR 0x22]
      else if c = CHR 0x5C then [CHR 0x5C, CHR 0x5C]
      else if c = CHR 0x08 then [CHR 0x5C, CHR ''b'']
      else if c = CHR 0x0C then [CHR 0x5C, CHR ''f'']
      else if c = CHR 0x0A then [CHR 0x5C, CHR ''n'']
      else if c = CHR 0x0D then [CHR 0x5C, CHR ''r'']
      else if c = CHR 0x09 then [CHR 0x5C, CHR ''t'']
      else if (of_char c :: nat) < 32
        then [CHR 0x5C, CHR ''u'', CHR ''0'', CHR ''0'',
              hex_digit (of_char c div 16), hex_digit (of_char c mod 16)]
      else [c])"

definition quote :: "string \<Rightarrow> string" where
  "quote s = CHR 0x22 # concat (map escape_char s) @ [CHR 0x22]"

definition digit_char :: "nat \<Rightarrow> char" where
  "digit_char d = char_of (48 + d)"

fun show_nat :: "nat \<Rightarrow> string" where
  "show_nat n = (if n < 10 then [digit_char n] else show_nat (n div 10) @ [digit_char (n mod 10)])"

declare show_nat.simps [simp del]

definition show_int :: "int \<Rightarrow> string" where
  "show_int i = (if i < 0 then CHR ''-'' # show_nat (nat (- i)) else show_nat (nat i))"

fun commas :: "string list \<Rightarrow> string" where
  "commas [] = []"
| "commas [x] = x"
| "commas (x # y # ys) = x @ '','' @ commas (y # ys)"

fun JSON_stringify :: "json \<Rightarrow> string" where
  "JSON_stringify JNull = ''null''"
| "JSON_stringify (JBool b) = (if b then ''true'' else ''false'')"
| "JSON_stringify (JNum i) = show_int i"
| "JSON_stringify (JStr s) = quote s"
| "JSON_stringify (JArr vs) = ''['' @ commas (map JSON_stringify vs) @ '']''"
| "JSON_stringify (JObj ms) =
     ''{'' @ commas (map (\<lambda>(k, v). quote k @ CHR '':'' # JSON_stringify v) ms) @ ''}''"

definition is_ws :: "char \<Rightarrow> bool" where
  "is_ws c = (c = CHR 0x20 \<or> c = CHR 0x09 \<or> c = CHR 0x0A \<or> c = CHR 0x0D)"

definition skip_ws :: "string \<Rightarrow> string" where
  "skip_ws = dropWhile is_ws"

definition is_digit :: "char \<Rightarrow> bool" where
  "is_digit c = (48 \<le> (of_char c :: nat) \<and> (of_char c :: nat) \<le> 57)"

definition digit_val :: "char \<Rightarrow> nat" where
  "digit_val c = of_char c - 48"

definition hex_val :: "char \<Rightarrow> nat option" where
  "hex_val c =
     (let n = (of_char c :: nat) in
      if 48 \<le> n \<and> n \<le> 57 then Some (n - 48)
      else if 97 \<le> n \<and> n \<le> 102 then Some (n - 87)
      else if 65 \<le> n \<and> n \<le> 70 then Some (n - 55)
      else None)"

definition unescape :: "char \<Rightarrow> char option" where
  "unescape e =
     (if e = CHR 0x22 then Some (CHR 0x22)
      else if e = CHR 0x5C then Some (CHR 0x5C)
      else if e = CHR ''/'' then Some (CHR ''/'')
      else if e = CHR ''b'' then Some (CHR 0x08)
      else if e = CHR ''f'' then Some (CHR 0x0C)
      else if e = CHR ''n'' then Some (CHR 0x0A)
      else if e = CHR ''r'' then Some (CHR 0x0D)
      else if e = CHR ''t'' then Some (CHR 0x09)
      else None)"

definition hex4 :: "char \<Rightarrow> char \<Rightarrow> char \<Rightarrow> char \<Rightarrow> nat option" where
  "hex4 a b c d =
     (case (hex_val a, hex_val b, hex_val c, hex_val d) of
        (Some x, Some y, Some z, Some w) \<Rightarrow> Some (((x * 16 + y) * 16 + z) * 16 + w)
      | _ \<Rightarrow> None)"

definition utf8 :: "nat \<Rightarrow> string option" where
  "utf8 code =
     (if code < 0x80 then Some [char_of code]
      else if code < 0x800 then Some [char_of (0xC0 + code div 64), char_of (0x80 + code mod 64)]
      else if 0xD800 \<le> code \<and> code < 0xE000 then None
      else Some [char_of (0xE0 + code div 4096), char_of (0x80 + code div 64 mod 64),
                 char_of (0x80 + code mod 64)])"

definition prepend :: "string \<Rightarrow> (string \<times> string) option \<Rightarrow> (string \<times> string) option" where
  "prepend cs r = (case r of None \<Rightarrow> None | Some (s, rest) \<Rightarrow> Some (cs @ s, rest))"

fun parse_string :: "string \<Rightarrow> (string \<times> string) option" where
  "parse_string [] = None"
| "parse_string (c # cs) =
     (if c = CHR 0x22 then Some ([], cs)
      else if c = CHR 0x5C then
        (case cs of
           [] \<Rightarrow> None
         | e # es \<Rightarrow>
             if e = CHR ''u'' then
               (case es of
                  h1 # h2 # h3 # h4 # rest \<Rightarrow>
                    (case hex4 h1 h2 h3 h4 of
                       None \<Rightarrow> None
                     | Some code \<Rightarrow>
                         (case utf8 code of
                            None \<Rightarrow> None
                          | Some bytes \<Rightarrow> prepend bytes (parse_string rest)))
                | _ \<Rightarrow> None)
             else
               (case unescape e of
                  None \<Rightarrow> None
                | Some ch \<Rightarrow> prepend [ch] (parse_string es)))
      else if (of_char c :: nat) < 32 then None
      else prepend [c] (parse_string cs))"

definition parse_digits :: "string \<Rightarrow> nat" where
  "parse_digits = foldl (\<lambda>a c. 10 * a + digit_val c) 0"

definition parse_unsigned :: "string \<Rightarrow> (nat \<times> string) option" where
  "parse_unsigned s =
     (case s of
        [] \<Rightarrow> None
      | d # ds \<Rightarrow>
          if d = CHR ''0'' then Some (0, ds)
          else if is_digit d then Some (parse_digits (takeWhile is_digit s), dropWhile is_digit s)
          else None)"

definition parse_number :: "string \<Rightarrow> (int \<times> string) option" where
  "parse_number s =
     (case s of
        [] \<Rightarrow> None
      | c # cs \<Rightarrow>
          if c = CHR ''-'' then
            (case parse_unsigned cs of None \<Rightarrow> None | Some (n, r) \<Rightarrow> Some (- int n, r))
          else
            (case parse_unsigned s of None \<Rightarrow> None | Some (n, r) \<Rightarrow> Some (int n, r)))"

definition literal :: "string \<Rightarrow> json \<Rightarrow> string \<Rightarrow> (json \<times> string) option" where
  "literal w v s = (if take (length w) s = w then Some (v, drop (length w) s) else None)"

fun parse_value :: "nat \<Rightarrow> string \<Rightarrow> (json \<times> string) option"
and parse_elements :: "nat \<Rightarrow> string \<Rightarrow> (json list \<times> string) option"
and parse_members :: "nat \<Rightarrow> string \<Rightarrow> ((string \<times> json) list \<times> string) option"
where
  "parse_value 0 s = None"
| "parse_value (Suc n) s =
     (case s of
        [] \<Rightarrow> None
      | c # cs \<Rightarrow>
          if c = CHR ''n'' then literal ''null'' JNull s
          else if c = CHR ''t'' then literal ''true'' (JBool True) s
          else if c = CHR ''f'' then literal ''false'' (JBool False) s
          else if c = CHR 0x22 then
            (case parse_string cs of None \<Rightarrow> None | Some (str, r) \<Rightarrow> Some (JStr str, r))
          else if c = CHR ''['' then
            (case skip_ws cs of
               [] \<Rightarrow> None
             | d # ds \<Rightarrow>
                 if d = CHR '']'' then Some (JArr [], ds)
                 else (case parse_elements n (d # ds) of
                         None \<Rightarrow> None
                       | Some (vs, r) \<Rightarrow> Some (JArr vs, r)))
          else if c = CHR ''{'' then
            (case skip_ws cs of
               [] \<Rightarrow> None
             | d # ds \<Rightarrow>
                 if d = CHR ''}'' then Some (JObj [], ds)
                 else (case parse_members n (d # ds) of
                         None \<Rightarrow> None
                       | Some (ms, r) \<Rightarrow> Some (JObj ms, r)))
          else (case parse_number s of None \<Rightarrow> None | Some (i, r) \<Rightarrow> Some (JNum i, r)))"
| "parse_elements 0 s = None"
| "parse_elements (Suc n) s =
     (case parse_value n s of
        None \<Rightarrow> None
      | Some (v, r) \<Rightarrow>
          (case skip_ws r of
             [] \<Rightarrow> None
           | d # ds \<Rightarrow>
               if d = CHR '','' then
                 (case parse_elements n (skip_ws ds) of
                    None \<Rightarrow> None
                  | Some (vs, r') \<Rightarrow> Some (v # vs, r'))
               else if d = CHR '']'' then Some ([v], ds)
               else None))"
| "parse_members 0 s = None"
| "parse_members (Suc n) s =
     (case s of
        [] \<Rightarrow> None
      | q # qs \<Rightarrow>
          if q \<noteq> CHR 0x22 then None
          else
            (case parse_string qs of
               None \<Rightarrow> None
             | Some (k, r) \<Rightarrow>
                 (case skip_ws r of
                    [] \<Rightarrow> None
                  | col # r1 \<Rightarrow>
                      if col \<noteq> CHR '':'' then None
                      else
                        (case parse_value n (skip_ws r1) of
                           None \<Rightarrow> None
                         | Some (v, r2) \<Rightarrow>
                             (case skip_ws r2 of
                                [] \<Rightarrow> None
                              | d # ds \<Rightarrow>
                                  if d = CHR '','' then
                                    (case parse_members n (skip_ws ds) of
                                       None \<Rightarrow> None
                                     | Some (ms, r') \<Rightarrow> Some ((k, v) # ms, r'))
                                  else if d = CHR ''}'' then Some ([(k, v)], ds)
                                  else None)))))"

definition JSON_parse :: "string \<Rightarrow> json option" where
  "JSON_parse s =
     (case parse_value (length s) (skip_ws s) of
        None \<Rightarrow> None
      | Some (v, r) \<Rightarrow> if skip_ws r = [] then Some v else None)"


section \<open>The messaging client the facade delegates to\<close>

text \<open>
  Everything below the facade belongs to the client library and the service behind it.
  They are modelled by one record \<open>world\<close>: the topics and subscriptions that exist
  upstream, the messages the transport accepted, the listeners attached to each
  subscription, the requests issued so far, and the promise rejections nobody handled.
  \<open>faults\<close> says which requests the transport refuses, and with which error.
\<close>

text \<open>
  A buffer is a list of bytes. \<open>Buffer_from\<close> gives the bytes of a string, which
  are its characters; \<open>toString\<close> gives the string of those bytes and, unlike the
  built-in, does not look for bytes that are no UTF-8.
\<close>

type_synonym buffer = "8 word list"

definition Buffer_from :: "string \<Rightarrow> buffer" where
  "Buffer_from s = map (\<lambda>c. word_of_nat (of_char c)) s"

definition toString :: "buffer \<Rightarrow> string" where
  "toString b = map (\<lambda>w. char_of (unat w)) b"

datatype error = TypeError string | ServiceError string | NodeError string

datatype request =
    GetTopics
  | TopicExists string
  | TopicCreate string
  | TopicDelete string
  | SubscriptionExists string string
  | SubscriptionCreate string string
  | SubscriptionDelete string string
  | Publish string

text \<open>
  Function values are compared by reference. A function of the caller is
  \<open>UserFunction r\<close> with its reference \<open>r\<close>; the two arrow functions that
  \<^verbatim>\<open>subscribe\<close> creates are closures of their own, allocated afresh by each call.
\<close>

datatype fn =
    UserFunction nat
  | MessageListener nat fn
  | ErrorListener nat string string

record world =
  faults :: "request \<Rightarrow> error option"
  calls :: "request list"
  remote_topics :: "string set"
  remote_subscriptions :: "(string \<times> string) set"
  published :: "(string \<times> buffer) list"
  listeners :: "string \<times> string \<Rightarrow> (string \<times> fn) list"
  allocated :: nat
  unhandled :: "error list"

record Credentials =
  client_email :: string
  private_key :: string

record PubSubCore =
  core_projectId :: "string option"
  keyFile :: "string option"
  core_credentials :: "Credentials option"

datatype Topic = Topic (topic_name: string)

record SubscriptionOptions =
  maxMessages :: int
  ackDeadline :: "int option"

record Subscription =
  sub_topic :: string
  sub_name :: string
  sub_options :: "SubscriptionOptions option"

definition issue :: "request \<Rightarrow> world \<Rightarrow> world" where
  "issue r w = w\<lparr>calls := calls w @ [r]\<rparr>"

definition getTopics :: "PubSubCore \<Rightarrow> world \<Rightarrow> (error + unit) \<times> world" where
  "getTopics c w =
     (case faults w GetTopics of
        Some e \<Rightarrow> (Inl e, issue GetTopics w)
      | None \<Rightarrow> (Inr (), issue GetTopics w))"

definition client_topic :: "PubSubCore \<Rightarrow> string \<Rightarrow> Topic" where
  "client_topic c n = Topic n"

definition topic_exists :: "Topic \<Rightarrow> world \<Rightarrow> (error + bool) \<times> world" where
  "topic_exists t w =
     (case faults w (TopicExists (topic_name t)) of
        Some e \<Rightarrow> (Inl e, issue (TopicExists (topic_name t)) w)
      | None \<Rightarrow> (Inr (topic_name t \<in> remote_topics w), issue (TopicExists (topic_name t)) w))"

definition topic_create :: "Topic \<Rightarrow> world \<Rightarrow> (error + Topic) \<times> world" where
  "topic_create t w =
     (case faults w (TopicCreate (topic_name t)) of
        Some e \<Rightarrow> (Inl e, issue (TopicCreate (topic_name t)) w)
      | None \<Rightarrow>
          if topic_name t \<in> remote_topics w
          then (Inl (ServiceError ''ALREADY_EXISTS''), issue (TopicCreate (topic_name t)) w)
          else (Inr t, issue (TopicCreate (topic_name t))
                         (w\<lparr>remote_topics := insert (topic_name t) (remote_topics w)\<rparr>)))"

definition topic_delete :: "Topic \<Rightarrow> world \<Rightarrow> (error + unit) \<times> world" where
  "topic_delete t w =
     (case faults w (TopicDelete (topic_name t)) of
        Some e \<Rightarrow> (Inl e, issue (TopicDelete (topic_name t)) w)
      | None \<Rightarrow>
          if topic_name t \<in> remote_topics w
          then (Inr (), issue (TopicDelete (topic_name t))
                          (w\<lparr>remote_topics := remote_topics w - {topic_name t}\<rparr>))
          else (Inl (ServiceError ''NOT_FOUND''), issue (TopicDelete (topic_name t)) w))"

definition topic_publish :: "Topic \<Rightarrow> buffer \<Rightarrow> world \<Rightarrow> (error + unit) \<times> world" where
  "topic_publish t b w =
     (case faults w (Publish (topic_name t)) of
        Some e \<Rightarrow> (Inl e, issue (Publish (topic_name t)) w)
      | None \<Rightarrow>
          if topic_name t \<in> remote_topics w
          then (Inr (), issue (Publish (topic_name t))
                          (w\<lparr>published := published w @ [(topic_name t, b)]\<rparr>))
          else (Inl (ServiceError ''NOT_FOUND''), issue (Publish (topic_name t)) w))"

definition topic_subscription ::
  "Topic \<Rightarrow> string \<Rightarrow> SubscriptionOptions option \<Rightarrow> Subscription" where
  "topic_subscription t n opts = \<lparr>sub_topic = topic_name t, sub_name = n, sub_options = opts\<rparr>"

definition sub_key :: "Subscription \<Rightarrow> string \<times> string" where
  "sub_key sub = (sub_topic sub, sub_name sub)"

definition subscription_exists :: "Subscription \<Rightarrow> world \<Rightarrow> (error + bool) \<times> world" where
  "subscription_exists sub w =
     (case faults w (SubscriptionExists (sub_topic sub) (sub_name sub)) of
        Some e \<Rightarrow> (Inl e, issue (SubscriptionExists (sub_topic sub) (sub_name sub)) w)
      | None \<Rightarrow> (Inr (sub_key sub \<in> remote_subscriptions w),
                 issue (SubscriptionExists (sub_topic sub) (sub_name sub)) w))"

definition subscription_create ::
  "Subscription \<Rightarrow> world \<Rightarrow> (error + Subscription) \<times> world" where
  "subscription_create sub w =
     (case faults w (SubscriptionCreate (sub_topic sub) (sub_name sub)) of
        Some e \<Rightarrow> (Inl e, issue (SubscriptionCreate (sub_topic sub) (sub_name sub)) w)
      | None \<Rightarrow>
          if sub_key sub \<in> remote_subscriptions w
          then (Inl (ServiceError ''ALREADY_EXISTS''),
                issue (SubscriptionCreate (sub_topic sub) (sub_name sub)) w)
          else if sub_topic sub \<in> remote_topics w
          then (Inr sub, issue (SubscriptionCreate (sub_topic sub) (sub_name sub))
                           (w\<lparr>remote_subscriptions := insert (sub_key sub) (remote_subscriptions w)\<rparr>))
          else (Inl (ServiceError ''NOT_FOUND''),
                issue (SubscriptionCreate (sub_topic sub) (sub_name sub)) w))"

definition subscription_delete :: "Subscription \<Rightarrow> world \<Rightarrow> (error + unit) \<times> world" where
  "subscription_delete sub w =
     (case faults w (SubscriptionDelete (sub_topic sub) (sub_name sub)) of
        Some e \<Rightarrow> (Inl e, issue (SubscriptionDelete (sub_topic sub) (sub_name sub)) w)
      | None \<Rightarrow>
          if sub_key sub \<in> remote_subscriptions w
          then (Inr (), issue (SubscriptionDelete (sub_topic sub) (sub_name sub))
                          (w\<lparr>remote_subscriptions := remote_subscriptions w - {sub_key sub}\<rparr>))
          else (Inl (ServiceError ''NOT_FOUND''),
                issue (SubscriptionDelete (sub_topic sub) (sub_name sub)) w))"

text \<open>
  The listener table of a subscription is an event emitter's: \<^verbatim>\<open>on\<close> appends,
  \<^verbatim>\<open>removeListener\<close> takes out the most recently added entry that is the very
  function it was given, and nothing when there is none. The table is kept by the name
  of the subscription, as if the client handed back the same subscription object for
  the same name each time; a client that makes a new object for each call gives
  \<^verbatim>\<open>removeListener\<close> even less to find.
\<close>

definition on :: "Subscription \<Rightarrow> string \<Rightarrow> fn \<Rightarrow> world \<Rightarrow> world" where
  "on sub ev f w =
     w\<lparr>listeners := (listeners w)(sub_key sub := listeners w (sub_key sub) @ [(ev, f)])\<rparr>"

definition remove_last :: "'a \<Rightarrow> 'a list \<Rightarrow> 'a list" where
  "remove_last x xs = rev (remove1 x (rev xs))"

definition removeListener :: "Subscription \<Rightarrow> string \<Rightarrow> fn \<Rightarrow> world \<Rightarrow> world" where
  "removeListener sub ev f w =
     w\<lparr>listeners := (listeners w)(sub_key sub := remove_last (ev, f) (listeners w (sub_key sub)))\<rparr>"

definition allocate :: "world \<Rightarrow> nat \<times> world" where
  "allocate w = (allocated w, w\<lparr>allocated := Suc (allocated w)\<rparr>)"

section \<open>The facade\<close>

text \<open>
  \<^verbatim>\<open>class PubSub\<close> of \<^verbatim>\<open>src/PubSub.ts\<close>, which \<^verbatim>\<open>dist/PubSub.js\<close> is compiled
  from. (The repository also holds an earlier JavaScript version of the class, built on
  a service base class and a validator that are not part of it; the differences that
  matter are noted where they arise.) A field that the caller may leave out is an
  option; the field \<^verbatim>\<open>file\<close> of the configuration is \<open>config_file\<close> here.
  For \<^verbatim>\<open>ack_deadline_seconds\<close> the constructor tells a configuration without the
  property from one that has it with the value \<^verbatim>\<open>undefined\<close>, so that field has
  three cases.

  The emitter is the event emitter handed to the constructor: the events emitted to it
  so far, and for each event name the number of listeners attached. Emitting
  \<^verbatim>\<open>log\<close> or \<^verbatim>\<open>success\<close> never throws by itself; emitting \<^verbatim>\<open>error\<close> to an
  emitter that has no listener for it throws, which is the emitter's own rule and the one
  way in which \<^verbatim>\<open>this.error\<close> fails here.
  An \<^verbatim>\<open>async\<close> method becomes a function from the facade and the world to the outcome
  of its promise (\<open>Inl\<close> a rejection, \<open>Inr\<close> the value it resolves with), the
  facade and the world afterwards.
\<close>

datatype 'a optional = Absent | Undefined | Value 'a

definition value_of :: "'a optional \<Rightarrow> 'a option" where
  "value_of p = (case p of Value v \<Rightarrow> Some v | Undefined \<Rightarrow> None | Absent \<Rightarrow> None)"

record PubSubConfig =
  projectId :: "string option"
  config_file :: "string option"
  credentials :: "Credentials option"
  ack_deadline_seconds :: "int optional"

datatype event =
    LogEvent string string "json option"
  | SuccessEvent string string "json option"
  | ErrorEvent string "json option" error

record EventEmitter =
  emitted :: "event list"
  listenerCount :: "string \<Rightarrow> nat"

definition heard :: "event \<Rightarrow> EventEmitter \<Rightarrow> EventEmitter" where
  "heard e em = em\<lparr>emitted := emitted em @ [e]\<rparr>"

record PubSub =
  name :: string
  emitter :: EventEmitter
  config :: PubSubConfig
  client :: "PubSubCore option"
  topics :: "string \<rightharpoonup> Topic"

text \<open>
  An object literal whose property value is \<^verbatim>\<open>undefined\<close> serialises without that
  property; \<open>js_object\<close> builds the object from the properties that have a value.
\<close>

definition js_object :: "(string \<times> json option) list \<Rightarrow> json" where
  "js_object ps = JObj (List.map_filter (\<lambda>p. map_option (Pair (fst p)) (snd p)) ps)"

definition template :: "string option \<Rightarrow> string" where
  "template v = (case v of None \<Rightarrow> ''undefined'' | Some s \<Rightarrow> s)"

text \<open>
  The spread \<^verbatim>\<open>{ ack_deadline_seconds: 300, ...config }\<close> gives 300 only to a
  configuration that has no property of that name; a property that is there wins, also
  with the value \<^verbatim>\<open>undefined\<close>.
\<close>

definition constructor :: "string \<Rightarrow> EventEmitter \<Rightarrow> PubSubConfig \<Rightarrow> error + PubSub" where
  "constructor n em cfg =
     Inr \<lparr>name = n,
          emitter = em,
          config = cfg\<lparr>ack_deadline_seconds :=
                         (case ack_deadline_seconds cfg of
                            Absent \<Rightarrow> Value 300
                          | Undefined \<Rightarrow> Undefined
                          | Value d \<Rightarrow> Value d)\<rparr>,
          client = None,
          topics = Map.empty\<rparr>"

definition log :: "string \<Rightarrow> json option \<Rightarrow> PubSub \<Rightarrow> PubSub" where
  "log message d s = s\<lparr>emitter := heard (LogEvent (name s) message d) (emitter s)\<rparr>"

definition success :: "string \<Rightarrow> json option \<Rightarrow> PubSub \<Rightarrow> PubSub" where
  "success message d s = s\<lparr>emitter := heard (SuccessEvent (name s) message d) (emitter s)\<rparr>"

definition error :: "error \<Rightarrow> json option \<Rightarrow> PubSub \<Rightarrow> error + PubSub" where
  "error err d s =
     (if listenerCount (emitter s) ''error'' = 0 then Inl (NodeError ''ERR_UNHANDLED_ERROR'')
      else Inr (s\<lparr>emitter := heard (ErrorEvent (name s) d err) (emitter s)\<rparr>))"

definition new_PubSubCore :: "PubSubConfig \<Rightarrow> PubSubCore" where
  "new_PubSubCore cfg =
     \<lparr>core_projectId = projectId cfg, keyFile = config_file cfg, core_credentials = credentials cfg\<rparr>"

definition init :: "PubSub \<times> world \<Rightarrow> (error + unit) \<times> PubSub \<times> world" where
  "init = (\<lambda>(s, w).
     let s1 = log ''Using config''
                (Some (js_object
                   [(''projectId'', map_option JStr (projectId (config s))),
                    (''email'', Some (JStr (case credentials (config s) of
                                              Some cr \<Rightarrow> client_email cr
                                            | None \<Rightarrow> ''n/a''))),
                    (''method'', Some (JStr (case credentials (config s) of
                                               Some cr \<Rightarrow> ''PrivateKey''
                                             | None \<Rightarrow> ''KeyFile'')))])) s;
         c = new_PubSubCore (config s)
     in case getTopics c w of
          (Inl e, w1) \<Rightarrow> (Inl e, s1, w1)
        | (Inr u, w1) \<Rightarrow>
            (Inr (),
             success (''Successfully connected on project '' @ template (projectId (config s)))
               None (s1\<lparr>client := Some c\<rparr>),
             w1))"

definition createTopic :: "string \<Rightarrow> PubSub \<times> world \<Rightarrow> (error + bool) \<times> PubSub \<times> world" where
  "createTopic n = (\<lambda>(s, w).
     case client s of
       None \<Rightarrow> (Inl (TypeError ''Cannot read properties of null''), s, w)
     | Some c \<Rightarrow>
         let topic = client_topic c n;
             s1 = log (''Creating topic '' @ n) None s
         in case topic_exists topic w of
              (Inl e, w1) \<Rightarrow> (Inl e, s1, w1)
            | (Inr exists, w1) \<Rightarrow>
                if exists then
                  (Inr True,
                   (success (''Topic '' @ [CHR 0x22] @ n @ [CHR 0x22] @ '' already exists'') None s1)
                     \<lparr>topics := (topics s1)(n \<mapsto> topic)\<rparr>,
                   w1)
                else
                  (case topic_create topic w1 of
                     (Inl e, w2) \<Rightarrow> (Inl e, s1, w2)
                   | (Inr createdTopic, w2) \<Rightarrow>
                       (Inr True,
                        success (''Topic '' @ [CHR 0x22] @ n @ [CHR 0x22] @ '' created'') None
                          (s1\<lparr>topics := (topics s1)(n \<mapsto> createdTopic)\<rparr>),
                        w2)))"

definition deleteTopic :: "string \<Rightarrow> PubSub \<times> world \<Rightarrow> (error + bool) \<times> PubSub \<times> world" where
  "deleteTopic n = (\<lambda>(s, w).
     case topics s n of
       None \<Rightarrow> (Inl (TypeError ''Cannot read properties of undefined''), s, w)
     | Some topic \<Rightarrow>
         (case topic_delete topic w of
            (Inl e, w1) \<Rightarrow> (Inl e, s, w1)
          | (Inr u, w1) \<Rightarrow>
              (Inr True,
               (log (''Deleted topic '' @ topic_name topic) None s)\<lparr>topics := (topics s)(n := None)\<rparr>,
               w1)))"

record subscribe_options =
  maxInProgress :: "int option"
  ackDeadlineSeconds :: "int option"

definition subscription_data :: "Topic \<Rightarrow> Subscription \<Rightarrow> json option" where
  "subscription_data topic sub =
     Some (js_object [(''topicName'', Some (JStr (topic_name topic))),
                      (''subName'', Some (JStr (sub_name sub)))])"

definition attach :: "Topic \<Rightarrow> fn \<Rightarrow> Subscription \<Rightarrow> world \<Rightarrow> world" where
  "attach topic cb sub w =
     (let (k, w1) = allocate w;
          w2 = on sub ''message'' (MessageListener k cb) w1;
          (k', w3) = allocate w2
      in on sub ''error'' (ErrorListener k' (topic_name topic) (sub_name sub)) w3)"

definition subscribe ::
  "string \<Rightarrow> string \<Rightarrow> fn \<Rightarrow> subscribe_options \<Rightarrow> PubSub \<times> world
     \<Rightarrow> (error + bool) \<times> PubSub \<times> world" where
  "subscribe topicName subName cb options = (\<lambda>(s, w).
     let maxInProgress' = (case maxInProgress options of None \<Rightarrow> 1 | Some m \<Rightarrow> m);
         ackDeadlineSeconds' = (case ackDeadlineSeconds options of
                                  None \<Rightarrow> value_of (ack_deadline_seconds (config s))
                                | Some d \<Rightarrow> Some d);
         opts = \<lparr>maxMessages = maxInProgress', ackDeadline = ackDeadlineSeconds'\<rparr>
     in case topics s topicName of
          None \<Rightarrow> (Inl (TypeError ''Cannot read properties of undefined''), s, w)
        | Some topic \<Rightarrow>
            let subscription = topic_subscription topic subName (Some opts);
                s1 = log ''Subscribing''
                       (Some (js_object
                          [(''topicName'', Some (JStr topicName)),
                           (''subName'', Some (JStr subName)),
                           (''opts'', Some (js_object
                              [(''maxInProgress'', Some (JNum maxInProgress')),
                               (''ackDeadlineSeconds'', map_option JNum ackDeadlineSeconds')]))])) s
            in case subscription_exists subscription w of
                 (Inl e, w1) \<Rightarrow> (Inl e, s1, w1)
               | (Inr exists, w1) \<Rightarrow>
                   if exists then
                     (Inr True,
                      success ''Subscription already exists'' (subscription_data topic subscription) s1,
                      attach topic cb subscription w1)
                   else
                     (case subscription_create subscription w1 of
                        (Inl e, w2) \<Rightarrow> (Inl e, s1, w2)
                      | (Inr sub, w2) \<Rightarrow>
                          (Inr True,
                           success ''Created subscription'' (subscription_data topic subscription) s1,
                           attach topic cb sub w2)))"

definition unsubscribe ::
  "string \<Rightarrow> string \<Rightarrow> fn \<Rightarrow> PubSub \<times> world \<Rightarrow> (error + bool) \<times> PubSub \<times> world" where
  "unsubscribe topicName subName cb = (\<lambda>(s, w).
     case topics s topicName of
       None \<Rightarrow> (Inl (TypeError ''Cannot read properties of undefined''), s, w)
     | Some topic \<Rightarrow>
         let subscription = topic_subscription topic subName None;
             w1 = removeListener subscription ''message'' cb w
         in case subscription_delete subscription w1 of
              (Inl e, w2) \<Rightarrow> (Inl e, s, w2)
            | (Inr u, w2) \<Rightarrow>
                (Inr True,
                 log (''Removed listener from '' @ topic_name topic @ '', '' @ sub_name subscription)
                   (subscription_data topic subscription) s,
                 w2))"

definition envelope :: "json option \<Rightarrow> json \<Rightarrow> json" where
  "envelope content meta = js_object [(''content'', content), (''meta'', Some meta)]"

text \<open>
  \<^verbatim>\<open>publish\<close>, \<^verbatim>\<open>send\<close> and \<^verbatim>\<open>sendWithoutCover\<close> start the transport's
  publish and then either return at once (\<^verbatim>\<open>handle === false\<close>: the method's own
  promise resolves, the publish promise is left to itself, and its rejection, if any, is
  handled by nobody) or await the publish promise with a \<^verbatim>\<open>catch\<close> that emits the
  error event; when emitting throws, the awaited promise rejects with what was thrown
  and so does the method. \<^verbatim>\<open>publish\<close> takes the topic from the registry and publishes through
  its publisher; the other two ask the client for the topic by name.
\<close>

definition publish ::
  "string \<Rightarrow> json option \<Rightarrow> json \<Rightarrow> bool \<Rightarrow> PubSub \<times> world \<Rightarrow> (error + unit) \<times> PubSub \<times> world" where
  "publish topicName content meta handle = (\<lambda>(s, w).
     case topics s topicName of
       None \<Rightarrow> (Inl (TypeError ''Cannot read properties of undefined''), s, w)
     | Some topic \<Rightarrow>
         (case topic_publish topic (Buffer_from (JSON_stringify (envelope content meta))) w of
            (publishPromise, w1) \<Rightarrow>
              if handle = False then
                (Inr (), s,
                 case publishPromise of
                   Inl err \<Rightarrow> w1\<lparr>unhandled := unhandled w1 @ [err]\<rparr>
                 | Inr u \<Rightarrow> w1)
              else
                (case publishPromise of
                   Inl err \<Rightarrow>
                     (case error err
                             (Some (js_object [(''topicName'', Some (JStr topicName)),
                                               (''message'', content),
                                               (''options'', Some meta)])) s of
                        Inl thrown \<Rightarrow> (Inl thrown, s, w1)
                      | Inr s1 \<Rightarrow> (Inr (), s1, w1))
                 | Inr u \<Rightarrow> (Inr (), s, w1))))"

definition send ::
  "string \<Rightarrow> json option \<Rightarrow> json \<Rightarrow> bool \<Rightarrow> PubSub \<times> world \<Rightarrow> (error + unit) \<times> PubSub \<times> world" where
  "send topicName content meta handler = (\<lambda>(s, w).
     case client s of
       None \<Rightarrow> (Inl (TypeError ''Cannot read properties of null''), s, w)
     | Some c \<Rightarrow>
         (case topic_publish (client_topic c topicName)
                 (Buffer_from (JSON_stringify (envelope content meta))) w of
            (publishPromise, w1) \<Rightarrow>
              if handler = False then
                (Inr (), s,
                 case publishPromise of
                   Inl err \<Rightarrow> w1\<lparr>unhandled := unhandled w1 @ [err]\<rparr>
                 | Inr u \<Rightarrow> w1)
              else
                (case publishPromise of
                   Inl err \<Rightarrow>
                     (case error err
                             (Some (js_object [(''topicName'', Some (JStr topicName)),
                                               (''message'', content),
                                               (''options'', Some meta)])) s of
                        Inl thrown \<Rightarrow> (Inl thrown, s, w1)
                      | Inr s1 \<Rightarrow> (Inr (), s1, w1))
                 | Inr u \<Rightarrow> (Inr (), s, w1))))"

text \<open>
  In the error event of \<^verbatim>\<open>sendWithoutCover\<close> the message is the buffer itself, shown
  here the way a buffer shows as JSON.
\<close>

definition buffer_json :: "buffer \<Rightarrow> json" where
  "buffer_json d = JObj [(''type'', JStr ''Buffer''), (''data'', JArr (map (\<lambda>b. JNum (uint b)) d))]"

definition sendWithoutCover ::
  "string \<Rightarrow> buffer \<Rightarrow> bool \<Rightarrow> PubSub \<times> world \<Rightarrow> (error + unit) \<times> PubSub \<times> world" where
  "sendWithoutCover topicName d handler = (\<lambda>(s, w).
     case client s of
       None \<Rightarrow> (Inl (TypeError ''Cannot read properties of null''), s, w)
     | Some c \<Rightarrow>
         (case topic_publish (client_topic c topicName) d w of
            (publishPromise, w1) \<Rightarrow>
              if handler = False then
                (Inr (), s,
                 case publishPromise of
                   Inl err \<Rightarrow> w1\<lparr>unhandled := unhandled w1 @ [err]\<rparr>
                 | Inr u \<Rightarrow> w1)
              else
                (case publishPromise of
                   Inl err \<Rightarrow>
                     (case error err
                             (Some (js_object [(''topicName'', Some (JStr topicName)),
                                               (''message'', Some (buffer_json d))])) s of
                        Inl thrown \<Rightarrow> (Inl thrown, s, w1)
                      | Inr s1 \<Rightarrow> (Inr (), s1, w1))
                 | Inr u \<Rightarrow> (Inr (), s, w1))))"

section \<open>The message listener\<close>

text \<open>
  A raw message of the client always has \<^verbatim>\<open>ack\<close>; \<^verbatim>\<open>nack\<close> and \<^verbatim>\<open>skip\<close>
  depend on the client's version, and the listener tests for them. A method bound to its
  message is \<open>Bound m i\<close>, \<open>i\<close> the message it acts on; \<open>invoke\<close> is what calling
  it does to the transport's record of acknowledgements.

  The listener decodes the payload with the buffer's \<^verbatim>\<open>toString\<close> and passes the text
  to \<^verbatim>\<open>safeJSON\<close>. Neither is code of the repository: the decoding is a parameter
  \<open>decode\<close> of the listener, and so is the function it calls on the text; the values
  a parse gives are of any type \<open>'v\<close>.
\<close>

datatype ack_method = Ack | Nack | Skip

datatype bound_fn = Bound ack_method nat | Noop

record Message =
  msg_id :: nat
  msg_data :: buffer
  has_nack :: bool
  has_skip :: bool

record 'v newmsg =
  nack :: bound_fn
  skip :: bound_fn
  ack :: bound_fn
  data :: 'v

definition invoke :: "bound_fn \<Rightarrow> (ack_method \<times> nat) list \<Rightarrow> (ack_method \<times> nat) list" where
  "invoke f acks = (case f of Bound m i \<Rightarrow> acks @ [(m, i)] | Noop \<Rightarrow> acks)"

text \<open>
  Modelled from the spec: \<^verbatim>\<open>safeJSON\<close>, the default export of the package
  \<^verbatim>\<open>safely-parse-json\<close>, which is not in the repository. The spec has it parse the
  payload text as JSON and, when parsing fails, return a safe fallback (the original
  string or null, for instance) rather than throw. \<open>parse\<close> is the JSON parser it
  uses, with \<open>None\<close> where that parser throws, and \<open>fallback\<close> the value it
  falls back to; both are parameters.
\<close>

definition safeJSON :: "(string \<Rightarrow> 'v option) \<Rightarrow> (string \<Rightarrow> 'v) \<Rightarrow> string \<Rightarrow> 'v" where
  "safeJSON parse fallback s = (case parse s of Some v \<Rightarrow> v | None \<Rightarrow> fallback s)"

definition message_listener ::
  "(buffer \<Rightarrow> string) \<Rightarrow> (string \<Rightarrow> 'v) \<Rightarrow> Message \<Rightarrow> 'v newmsg" where
  "message_listener decode safe msg =
     \<lparr>nack = (if has_nack msg then Bound Nack (msg_id msg) else Noop),
      skip = (if has_skip msg then Bound Skip (msg_id msg) else Noop),
      ack = Bound Ack (msg_id msg),
      data = safe (decode (msg_data msg))\<rparr>"

text \<open>
  When a subscription emits \<^verbatim>\<open>message\<close>, each function attached to that event is
  called in turn. \<open>deliver\<close> lists the calls that reach functions of the caller: the
  closure of \<^verbatim>\<open>subscribe\<close> calls \<open>cb\<close> with the envelope, a function attached
  directly would get the raw message.
\<close>

datatype 'v argument = RawMessage Message | Envelope "'v newmsg"

fun apply_listener ::
  "(buffer \<Rightarrow> string) \<Rightarrow> (string \<Rightarrow> 'v) \<Rightarrow> fn \<Rightarrow> Message \<Rightarrow> (fn \<times> 'v argument) list" where
  "apply_listener decode safe (MessageListener k cb) msg =
     [(cb, Envelope (message_listener decode safe msg))]"
| "apply_listener decode safe (UserFunction r) msg = [(UserFunction r, RawMessage msg)]"
| "apply_listener decode safe (ErrorListener k t n) msg = []"

definition deliver ::
  "(buffer \<Rightarrow> string) \<Rightarrow> (string \<Rightarrow> 'v) \<Rightarrow> world \<Rightarrow> string \<times> string \<Rightarrow> Message
     \<Rightarrow> (fn \<times> 'v argument) list" where
  "deliver decode safe w key msg =
     concat (map (\<lambda>l. if fst l = ''message'' then apply_listener decode safe (snd l) msg else [])
                 (listeners w key))"

section \<open>A run of the repository's test scripts\<close>

text \<open>
  The scripts under test construct the facade with the project \<^verbatim>\<open>quizizz-dev\<close>, call
  \<^verbatim>\<open>init\<close>, create the topic \<^verbatim>\<open>test\<close> and then publish or subscribe. \<open>quiet\<close> is
  a service with nothing in it and a transport that refuses nothing. The scripts attach
  one listener to each of \<^verbatim>\<open>error\<close>, \<^verbatim>\<open>log\<close> and \<^verbatim>\<open>success\<close> before they
  construct the facade (\<open>test_emitter\<close>); \<open>new_EventEmitter\<close> is an emitter
  nobody listens to, and \<open>started em\<close> the run on the emitter \<open>em\<close>.
\<close>

definition new_EventEmitter :: EventEmitter where
  "new_EventEmitter = \<lparr>emitted = [], listenerCount = (\<lambda>ev. 0)\<rparr>"

definition test_emitter :: EventEmitter where
  "test_emitter =
     \<lparr>emitted = [],
      listenerCount = (\<lambda>ev. if ev = ''error'' then 1 else if ev = ''log'' then 1
                              else if ev = ''success'' then 1 else 0)\<rparr>"

definition quiet :: world where
  "quiet = \<lparr>faults = (\<lambda>r. None), calls = [], remote_topics = {}, remote_subscriptions = {},
            published = [], listeners = (\<lambda>k. []), allocated = 0, unhandled = []\<rparr>"

definition test_config :: PubSubConfig where
  "test_config = \<lparr>projectId = Some ''quizizz-dev'', config_file = None, credentials = None,
                  ack_deadline_seconds = Absent\<rparr>"

definition after :: "('e + 'a) \<times> PubSub \<times> world \<Rightarrow> PubSub \<times> world" where
  "after r = snd r"

definition started :: "EventEmitter \<Rightarrow> PubSub \<times> world" where
  "started em = after (createTopic ''test''
                  (after (init (projr (constructor ''pubsub'' em test_config), quiet))))"

definition ready :: "PubSub \<times> world" where
  "ready = started test_emitter"

definition test_options :: subscribe_options where
  "test_options = \<lparr>maxInProgress = Some 3, ackDeadlineSeconds = Some 20\<rparr>"

text \<open>
  \<open>refusing r w\<close> is the world \<open>w\<close> with a transport that answers the request
  \<open>r\<close> with an error. \<open>sample_payload\<close> is the text \<^verbatim>\<open>{"a":1}\<close>.
\<close>

definition refusing :: "request \<Rightarrow> world \<Rightarrow> world" where
  "refusing r w = w\<lparr>faults := (faults w)(r := Some (ServiceError ''UNAVAILABLE''))\<rparr>"

definition sample_payload :: string where
  "sample_payload = [CHR ''{'', CHR 0x22, CHR ''a'', CHR 0x22, CHR '':'', CHR ''1'', CHR ''}'']"

section \<open>Auxiliary notions for the codec's correctness\<close>

text \<open>
  A numeral can be read back only when what follows it is not another digit; a number's
  text starts with a digit or the sign.
\<close>

definition follows :: "string \<Rightarrow> bool" where
  "follows rest = (case rest of [] \<Rightarrow> True | c # cs \<Rightarrow> \<not> is_digit c)"

definition number_start :: "char \<Rightarrow> bool" where
  "number_start c = (is_digit c \<or> c = CHR ''-'')"

text \<open>
  What a successful parse with a counter \<open>n\<close> guarantees: the text read is longer than
  the size of the value, and every counter above that size reads the same.
\<close>

definition value_ok :: "nat \<Rightarrow> bool" where
  "value_ok n = (\<forall>s v r. parse_value n s = Some (v, r) \<longrightarrow>
     length r + Suc (size v) \<le> length s
     \<and> (\<forall>m. Suc (size v) \<le> m \<longrightarrow> parse_value m s = Some (v, r)))"

definition elements_ok :: "nat \<Rightarrow> bool" where
  "elements_ok n = (\<forall>s vs r. parse_elements n s = Some (vs, r) \<longrightarrow>
     length r + Suc (size_list size vs) \<le> length s
     \<and> (\<forall>m. Suc (size_list size vs) \<le> m \<longrightarrow> parse_elements m s = Some (vs, r)))"

definition members_ok :: "nat \<Rightarrow> bool" where
  "members_ok n = (\<forall>s ms r. parse_members n s = Some (ms, r) \<longrightarrow>
     length r + Suc (size_list (size_prod (\<lambda>x. 0) size) ms) \<le> length s
     \<and> (\<forall>m. Suc (size_list (size_prod (\<lambda>x. 0) size) ms) \<le> m \<longrightarrow>
            parse_members m s = Some (ms, r)))"

section \<open>The codec reads back what it writes\<close>

subsection \<open>Bytes, numerals and strings\<close>

lemma toString_Buffer_from: "toString (Buffer_from s) = s"
proof -
  have "char_of (unat (word_of_nat (of_char c) :: 8 word)) = c" for c :: char
  proof -
    have "(of_char c :: nat) < 256" by simp
    then have "unat (word_of_nat (of_char c) :: 8 word) = of_char c"
      by (simp add: unat_of_nat)
    then show ?thesis by simp
  qed
  then show ?thesis
    by (simp add: toString_def Buffer_from_def map_idI)
qed

lemma of_char_digit_char: "d < 10 \<Longrightarrow> (of_char (digit_char d) :: nat) = 48 + d"
  by (simp add: digit_char_def)

lemma digit_val_digit_char: "d < 10 \<Longrightarrow> digit_val (digit_char d) = d"
  by (simp add: digit_val_def of_char_digit_char)

lemma is_digit_digit_char: "d < 10 \<Longrightarrow> is_digit (digit_char d)"
  by (simp add: is_digit_def of_char_digit_char)

lemma of_char_eq_iff: "c = d \<longleftrightarrow> (of_char c :: nat) = of_char d"
  by (metis char_of_char)

lemma digit_char_eq_zero: "d < 10 \<Longrightarrow> digit_char d = CHR ''0'' \<longleftrightarrow> d = 0"
  by (simp add: of_char_eq_iff [of "digit_char d"] of_char_digit_char)

lemma show_nat_digits: "c \<in> set (show_nat n) \<Longrightarrow> is_digit c"
proof (induction n arbitrary: c rule: show_nat.induct)
  case (1 n)
  show ?case
  proof (cases "n < 10")
    case True
    with "1.prems" show ?thesis
      by (simp add: show_nat.simps [of n] is_digit_digit_char)
  next
    case False
    with "1.prems" "1.IH" show ?thesis
      by (auto simp add: show_nat.simps [of n] is_digit_digit_char)
  qed
qed

lemma show_nat_not_Nil: "show_nat n \<noteq> []"
  by (simp add: show_nat.simps [of n])

lemma parse_digits_snoc: "parse_digits (xs @ [c]) = 10 * parse_digits xs + digit_val c"
  by (simp add: parse_digits_def)

lemma parse_digits_show_nat: "parse_digits (show_nat n) = n"
proof (induction n rule: show_nat.induct)
  case (1 n)
  show ?case
  proof (cases "n < 10")
    case True
    then show ?thesis
      by (simp add: show_nat.simps [of n] parse_digits_def digit_val_digit_char)
  next
    case False
    with "1.IH" show ?thesis
      by (simp add: show_nat.simps [of n] parse_digits_snoc digit_val_digit_char)
  qed
qed

lemma hd_show_nat_zero: "hd (show_nat n) = CHR ''0'' \<longleftrightarrow> n = 0"
proof (induction n rule: show_nat.induct)
  case (1 n)
  show ?case
  proof (cases "n < 10")
    case True
    then show ?thesis
      by (simp add: show_nat.simps [of n] digit_char_eq_zero)
  next
    case False
    then have "n div 10 \<noteq> 0" by simp
    with False "1.IH" show ?thesis
      by (simp add: show_nat.simps [of n] show_nat_not_Nil)
  qed
qed


lemma span_prefix:
  assumes "\<And>c. c \<in> set xs \<Longrightarrow> P c" and "case rest of [] \<Rightarrow> True | c # cs \<Rightarrow> \<not> P c"
  shows "takeWhile P (xs @ rest) = xs \<and> dropWhile P (xs @ rest) = rest"
  using assms by (induction xs) (auto split: list.splits)

lemma parse_unsigned_show_nat:
  assumes "follows rest"
  shows "parse_unsigned (show_nat n @ rest) = Some (n, rest)"
proof (cases "n = 0")
  case True
  have "digit_char 0 = CHR ''0''"
    using digit_char_eq_zero [of 0] by simp
  with True show ?thesis
    by (simp add: show_nat.simps [of 0] parse_unsigned_def)
next
  case False
  obtain d ds where ds: "show_nat n = d # ds"
    using show_nat_not_Nil [of n] by (cases "show_nat n") auto
  have d0: "d \<noteq> CHR ''0''"
    using hd_show_nat_zero [of n] False ds by simp
  have dd: "is_digit d"
    using show_nat_digits [of d n] ds by simp
  have span: "takeWhile is_digit (show_nat n @ rest) = show_nat n
      \<and> dropWhile is_digit (show_nat n @ rest) = rest"
    using assms by (intro span_prefix) (auto simp add: show_nat_digits follows_def)
  have "parse_unsigned (show_nat n @ rest)
      = Some (parse_digits (takeWhile is_digit (show_nat n @ rest)),
              dropWhile is_digit (show_nat n @ rest))"
    using d0 dd by (simp add: parse_unsigned_def ds)
  then show ?thesis
    by (simp add: span parse_digits_show_nat)
qed

lemma hd_show_nat_not_minus: "hd (show_nat n) \<noteq> CHR ''-''"
proof -
  have "is_digit (hd (show_nat n))"
    using show_nat_not_Nil [of n] by (intro show_nat_digits [of _ n]) simp
  then show ?thesis
    by (auto simp add: is_digit_def)
qed

lemma parse_number_show_int:
  assumes "follows rest"
  shows "parse_number (show_int i @ rest) = Some (i, rest)"
proof (cases "i < 0")
  case True
  then show ?thesis
    by (simp add: show_int_def parse_number_def parse_unsigned_show_nat [OF assms])
next
  case False
  obtain d ds where ds: "show_nat (nat i) = d # ds"
    using show_nat_not_Nil [of "nat i"] by (cases "show_nat (nat i)") auto
  have "d \<noteq> CHR ''-''"
    using hd_show_nat_not_minus [of "nat i"] ds by simp
  then have "parse_number (show_nat (nat i) @ rest)
      = (case parse_unsigned (show_nat (nat i) @ rest) of None \<Rightarrow> None
         | Some (n, r) \<Rightarrow> Some (int n, r))"
    by (simp add: parse_number_def ds)
  with False show ?thesis
    by (simp add: show_int_def parse_unsigned_show_nat [OF assms])
qed


lemma hex_val_hex_digit: "k < 16 \<Longrightarrow> hex_val (hex_digit k) = Some k"
proof -
  assume "k < 16"
  then have "k \<in> {0, 1, 2, 3, 4, 5, 6, 7, 8, 9, 10, 11, 12, 13, 14, 15}"
    by simp arith
  then show ?thesis
    by (auto simp add: hex_digit_def hex_val_def)
qed

lemma hex4_control:
  assumes "n < 32"
  shows "hex4 (CHR ''0'') (CHR ''0'') (hex_digit (n div 16)) (hex_digit (n mod 16)) = Some n"
proof -
  have "n div 16 < 16" using assms by simp
  then have a: "hex_val (hex_digit (n div 16)) = Some (n div 16)"
    by (rule hex_val_hex_digit)
  have b: "hex_val (hex_digit (n mod 16)) = Some (n mod 16)"
    by (rule hex_val_hex_digit) simp
  have z: "hex_val (CHR ''0'') = Some 0"
    by (simp add: hex_val_def)
  show ?thesis
    by (simp add: hex4_def a b z)
qed

lemma parse_string_escape: "parse_string (escape_char c @ t) = prepend [c] (parse_string t)"
proof -
  consider (short) "c \<in> {CHR 0x22, CHR 0x5C, CHR 0x08, CHR 0x0C, CHR 0x0A, CHR 0x0D, CHR 0x09}"
    | (control) "c \<notin> {CHR 0x22, CHR 0x5C, CHR 0x08, CHR 0x0C, CHR 0x0A, CHR 0x0D, CHR 0x09}"
        "(of_char c :: nat) < 32"
    | (plain) "c \<notin> {CHR 0x22, CHR 0x5C, CHR 0x08, CHR 0x0C, CHR 0x0A, CHR 0x0D, CHR 0x09}"
        "\<not> (of_char c :: nat) < 32"
    by blast
  then show ?thesis
  proof cases
    case short
    then show ?thesis
      by (auto simp add: escape_char_def unescape_def)
  next
    case control
    then have "escape_char c = [CHR 0x5C, CHR ''u'', CHR ''0'', CHR ''0'',
        hex_digit (of_char c div 16), hex_digit (of_char c mod 16)]"
      by (simp add: escape_char_def)
    then show ?thesis
      using control(2) by (simp add: hex4_control utf8_def)
  next
    case plain
    then show ?thesis
      by (simp add: escape_char_def)
  qed
qed

lemma parse_string_quote_body:
  "parse_string (concat (map escape_char s) @ CHR 0x22 # rest) = Some (s, rest)"
  by (induction s) (simp_all add: parse_string_escape prepend_def)

subsection \<open>Values\<close>

lemma is_digit_not_ws: "is_digit c \<Longrightarrow> \<not> is_ws c \<and> c \<noteq> CHR '']''
    \<and> c \<noteq> CHR ''n'' \<and> c \<noteq> CHR ''t'' \<and> c \<noteq> CHR ''f'' \<and> c \<noteq> CHR 0x22
    \<and> c \<noteq> CHR ''['' \<and> c \<noteq> CHR ''{''"
  by (auto simp add: is_digit_def is_ws_def)


lemma number_start_facts: "number_start c \<Longrightarrow> \<not> is_ws c \<and> c \<noteq> CHR '']''
    \<and> c \<noteq> CHR ''n'' \<and> c \<noteq> CHR ''t'' \<and> c \<noteq> CHR ''f'' \<and> c \<noteq> CHR 0x22
    \<and> c \<noteq> CHR ''['' \<and> c \<noteq> CHR ''{''"
proof -
  assume "number_start c"
  then consider "is_digit c" | "c = CHR ''-''"
    unfolding number_start_def by blast
  then show ?thesis
  proof cases
    case 1
    then show ?thesis by (rule is_digit_not_ws)
  next
    case 2
    then show ?thesis by (simp add: is_ws_def)
  qed
qed

lemma show_int_start: "\<exists>c cs. show_int i = c # cs \<and> number_start c"
proof (cases "i < 0")
  case True
  then show ?thesis by (simp add: show_int_def number_start_def)
next
  case False
  obtain d ds where ds: "show_nat (nat i) = d # ds"
    using show_nat_not_Nil [of "nat i"] by (cases "show_nat (nat i)") auto
  then have "is_digit d"
    using show_nat_digits [of d "nat i"] by simp
  with False ds show ?thesis by (simp add: show_int_def number_start_def)
qed

lemma stringify_start:
  "\<exists>c cs. JSON_stringify v = c # cs \<and> \<not> is_ws c \<and> c \<noteq> CHR '']''"
proof (cases v)
  case (JNum i)
  then show ?thesis
    using show_int_start [of i] number_start_facts by auto
qed (auto simp add: is_ws_def quote_def)

lemma skip_ws_stringify: "skip_ws (JSON_stringify v @ t) = JSON_stringify v @ t"
  using stringify_start [of v] by (auto simp add: skip_ws_def)

lemma skip_ws_punct:
  "skip_ws (CHR '']'' # t) = CHR '']'' # t"
  "skip_ws (CHR ''}'' # t) = CHR ''}'' # t"
  "skip_ws (CHR '','' # t) = CHR '','' # t"
  "skip_ws (CHR '':'' # t) = CHR '':'' # t"
  "skip_ws (CHR 0x22 # t) = CHR 0x22 # t"
  by (simp_all add: skip_ws_def is_ws_def)

lemma follows_punct:
  "follows (CHR '']'' # t)" "follows (CHR ''}'' # t)" "follows (CHR '','' # t)" "follows []"
  by (simp_all add: follows_def is_digit_def)

lemma commas_Cons: "ys \<noteq> [] \<Longrightarrow> commas (x # ys) = x @ CHR '','' # commas ys"
  by (cases ys) simp_all

lemma parse_elements_commas:
  assumes "vs \<noteq> []"
    and "\<And>v n rest. v \<in> set vs \<Longrightarrow> Suc (size v) \<le> n \<Longrightarrow> follows rest
           \<Longrightarrow> parse_value n (JSON_stringify v @ rest) = Some (v, rest)"
    and "Suc (size_list size vs) \<le> n"
  shows "parse_elements n (commas (map JSON_stringify vs) @ CHR '']'' # rest) = Some (vs, rest)"
  using assms
proof (induction vs arbitrary: n rule: list_nonempty_induct)
  case (single x)
  from single.prems(2) obtain m where n: "n = Suc m" and m: "Suc (size x) \<le> m"
    by (cases n) auto
  have "parse_value m (JSON_stringify x @ CHR '']'' # rest) = Some (x, CHR '']'' # rest)"
    using single.prems(1) [of x m] m by (simp add: follows_punct)
  then show ?case
    by (simp add: n skip_ws_punct)
next
  case (cons x xs)
  from cons.prems(2) obtain m where n: "n = Suc m" and m: "Suc (size x) \<le> m"
      and m': "Suc (size_list size xs) \<le> m"
    by (cases n) auto
  let ?tail = "commas (map JSON_stringify xs) @ CHR '']'' # rest"
  have head: "parse_value m (JSON_stringify x @ CHR '','' # ?tail) = Some (x, CHR '','' # ?tail)"
    using cons.prems(1) [of x m] m by (simp add: follows_punct)
  obtain y ys where xs: "xs = y # ys"
    using cons.hyps by (cases xs) auto
  have skip: "skip_ws ?tail = ?tail"
  proof (cases ys)
    case Nil
    then show ?thesis using skip_ws_stringify [of y] by (simp add: xs)
  next
    case (Cons z zs)
    then show ?thesis using skip_ws_stringify [of y] by (simp add: xs)
  qed
  have tail: "parse_elements m ?tail = Some (xs, rest)"
    using cons.IH [of m] cons.prems(1) m' by simp
  have "commas (map JSON_stringify (x # xs)) = JSON_stringify x @ CHR '','' # commas (map JSON_stringify xs)"
    using cons.hyps by (simp add: commas_Cons)
  then show ?case
    by (simp add: n head skip_ws_punct skip tail)
qed


lemma parse_members_commas:
  assumes "ms \<noteq> []"
    and "\<And>k v n rest. (k, v) \<in> set ms \<Longrightarrow> Suc (size v) \<le> n \<Longrightarrow> follows rest
           \<Longrightarrow> parse_value n (JSON_stringify v @ rest) = Some (v, rest)"
    and "Suc (size_list (size_prod (\<lambda>x. 0) size) ms) \<le> n"
  shows "parse_members n
           (commas (map (\<lambda>(k, v). quote k @ CHR '':'' # JSON_stringify v) ms) @ CHR ''}'' # rest)
         = Some (ms, rest)"
  using assms
proof (induction ms arbitrary: n rule: list_nonempty_induct)
  case (single x)
  obtain k v where x: "x = (k, v)" by (cases x)
  from single.prems(2) obtain m where n: "n = Suc m" and m: "Suc (size v) \<le> m"
    by (cases n) (auto simp add: x)
  have val: "parse_value m (JSON_stringify v @ CHR ''}'' # rest) = Some (v, CHR ''}'' # rest)"
    using single.prems(1) [of k v m] m by (simp add: x follows_punct)
  show ?case
    using val
    by (simp add: n x quote_def parse_string_quote_body skip_ws_punct skip_ws_stringify)
next
  case (cons x xs)
  obtain k v where x: "x = (k, v)" by (cases x)
  from cons.prems(2) obtain m where n: "n = Suc m" and m: "Suc (size v) \<le> m"
      and m': "Suc (size_list (size_prod (\<lambda>x. 0) size) xs) \<le> m"
    by (cases n) (auto simp add: x)
  let ?member = "\<lambda>(k, v). quote k @ CHR '':'' # JSON_stringify v"
  let ?tail = "commas (map ?member xs) @ CHR ''}'' # rest"
  have val: "parse_value m (JSON_stringify v @ CHR '','' # ?tail) = Some (v, CHR '','' # ?tail)"
    using cons.prems(1) [of k v m] m by (simp add: x follows_punct)
  obtain y ys where xs: "xs = y # ys"
    using cons.hyps by (cases xs) auto
  have skip: "skip_ws ?tail = ?tail"
    by (cases ys; cases y) (simp_all add: xs quote_def skip_ws_punct)
  have tail: "parse_members m ?tail = Some (xs, rest)"
  proof (rule cons.IH)
    fix k v n rest
    assume "(k, v) \<in> set xs" "Suc (size v) \<le> n" "follows rest"
    then show "parse_value n (JSON_stringify v @ rest) = Some (v, rest)"
      using cons.prems(1) [of k v n rest] by simp
  next
    show "Suc (size_list (size_prod (\<lambda>x. 0) size) xs) \<le> m" by (rule m')
  qed
  have "commas (map ?member (x # xs)) = ?member x @ CHR '','' # commas (map ?member xs)"
    using cons.hyps by (simp add: commas_Cons)
  then show ?case
    using val skip tail
    by (simp add: n x quote_def parse_string_quote_body skip_ws_punct skip_ws_stringify)
qed

lemma commas_start:
  assumes "vs \<noteq> []"
  shows "\<exists>c cs. commas (map JSON_stringify vs) = c # cs \<and> \<not> is_ws c \<and> c \<noteq> CHR '']''"
proof -
  obtain y ys where vs: "vs = y # ys"
    using assms by (cases vs) auto
  obtain c cs where "JSON_stringify y = c # cs" "\<not> is_ws c" "c \<noteq> CHR '']''"
    using stringify_start [of y] by blast
  then show ?thesis
    by (cases ys) (simp_all add: vs)
qed

lemma members_start:
  assumes "ms \<noteq> []"
  shows "\<exists>cs. commas (map (\<lambda>(k, v). quote k @ CHR '':'' # JSON_stringify v) ms) = CHR 0x22 # cs"
proof -
  obtain y ys where ms: "ms = y # ys"
    using assms by (cases ms) auto
  show ?thesis
    by (cases ys; cases y) (simp_all add: ms quote_def)
qed

lemma parse_value_stringify:
  "Suc (size v) \<le> n \<Longrightarrow> follows rest \<Longrightarrow> parse_value n (JSON_stringify v @ rest) = Some (v, rest)"
proof (induction v arbitrary: n rest)
  case JNull
  then obtain m where "n = Suc m" by (cases n) auto
  then show ?case by (simp add: literal_def)
next
  case (JBool b)
  then obtain m where "n = Suc m" by (cases n) auto
  then show ?case by (simp add: literal_def)
next
  case (JNum i)
  then obtain m where n: "n = Suc m" by (cases n) auto
  obtain c cs where c: "show_int i = c # cs" "number_start c"
    using show_int_start [of i] by blast
  have "parse_value (Suc m) (c # cs @ rest)
      = (case parse_number (c # cs @ rest) of None \<Rightarrow> None | Some (i, r) \<Rightarrow> Some (JNum i, r))"
    using number_start_facts [OF c(2)] by simp
  moreover have "parse_number (c # cs @ rest) = Some (i, rest)"
    using parse_number_show_int [OF JNum.prems(2), of i] by (simp add: c)
  ultimately show ?case
    by (simp add: n c)
next
  case (JStr s)
  then obtain m where "n = Suc m" by (cases n) auto
  then show ?case by (simp add: quote_def parse_string_quote_body)
next
  case (JArr vs)
  from JArr.prems obtain m where n: "n = Suc m" and m: "Suc (size_list size vs) \<le> m"
    by (cases n) auto
  show ?case
  proof (cases "vs = []")
    case True
    then show ?thesis by (simp add: n skip_ws_punct)
  next
    case False
    let ?body = "commas (map JSON_stringify vs) @ CHR '']'' # rest"
    obtain c cs where c: "commas (map JSON_stringify vs) = c # cs" "\<not> is_ws c" "c \<noteq> CHR '']''"
      using commas_start [OF False] by blast
    have skip: "skip_ws ?body = c # cs @ CHR '']'' # rest"
      using c by (simp add: skip_ws_def)
    have "parse_elements m ?body = Some (vs, rest)"
      using False JArr.IH m by (intro parse_elements_commas) auto
    then have "parse_elements m (c # cs @ CHR '']'' # rest) = Some (vs, rest)"
      by (simp add: c)
    then show ?thesis
      using c(3) by (simp add: n skip)
  qed
next
  case (JObj ms)
  from JObj.prems obtain m where n: "n = Suc m"
      and m: "Suc (size_list (size_prod (\<lambda>x. 0) size) ms) \<le> m"
    by (cases n) auto
  show ?case
  proof (cases "ms = []")
    case True
    then show ?thesis by (simp add: n skip_ws_punct)
  next
    case False
    let ?body = "commas (map (\<lambda>(k, v). quote k @ CHR '':'' # JSON_stringify v) ms) @ CHR ''}'' # rest"
    obtain cs where c: "commas (map (\<lambda>(k, v). quote k @ CHR '':'' # JSON_stringify v) ms) = CHR 0x22 # cs"
      using members_start [OF False] by blast
    have skip: "skip_ws ?body = CHR 0x22 # cs @ CHR ''}'' # rest"
      by (simp add: c skip_ws_punct)
    have "parse_members m ?body = Some (ms, rest)"
      using False m
    proof (intro parse_members_commas)
      fix k v n' rest'
      assume "(k, v) \<in> set ms" "Suc (size v) \<le> n'" "follows rest'"
      then show "parse_value n' (JSON_stringify v @ rest') = Some (v, rest')"
        using JObj.IH [of "(k, v)" v n' rest'] by simp
    qed auto
    then have "parse_members m (CHR 0x22 # cs @ CHR ''}'' # rest) = Some (ms, rest)"
      by (simp add: c)
    then show ?thesis
      by (simp add: n skip)
  qed
qed

lemma size_list_le_commas:
  assumes "\<And>x. x \<in> set xs \<Longrightarrow> Suc (f x) \<le> length (g x)"
  shows "size_list f xs \<le> length (commas (map g xs))"
  using assms
proof (induction xs rule: induct_list012)
  case 1
  then show ?case by simp
next
  case (2 x)
  then show ?case by simp
next
  case (3 x y zs)
  have "Suc (f x) \<le> length (g x)"
    using "3.prems" by simp
  moreover have "size_list f (y # zs) \<le> length (commas (map g (y # zs)))"
    using "3.IH"(2) "3.prems" by simp
  ultimately show ?case by simp
qed

lemma length_quote: "2 \<le> length (quote k)"
  by (simp add: quote_def)

lemma size_le_length: "Suc (size v) \<le> length (JSON_stringify v)"
proof (induction v)
  case (JNum i)
  obtain c cs where "show_int i = c # cs"
    using show_int_start [of i] by blast
  then show ?case by simp
next
  case (JStr s)
  then show ?case using length_quote [of s] by simp
next
  case (JArr vs)
  have "size_list size vs \<le> length (commas (map JSON_stringify vs))"
    using JArr.IH by (rule size_list_le_commas)
  then show ?case by simp
next
  case (JObj ms)
  have "size_list (size_prod (\<lambda>x. 0) size) ms
      \<le> length (commas (map (\<lambda>(k, v). quote k @ CHR '':'' # JSON_stringify v) ms))"
  proof (rule size_list_le_commas)
    fix x
    assume x: "x \<in> set ms"
    obtain k v where kv: "x = (k, v)" by (cases x)
    have "Suc (size v) \<le> length (JSON_stringify v)"
      using JObj.IH [of x v] x by (simp add: kv)
    then show "Suc (size_prod (\<lambda>x. 0) size x)
        \<le> length ((\<lambda>(k, v). quote k @ CHR '':'' # JSON_stringify v) x)"
      using length_quote [of k] by (simp add: kv)
  qed
  then show ?case by simp
qed simp_all

lemma JSON_parse_stringify: "JSON_parse (JSON_stringify v) = Some v"
proof -
  have "parse_value (length (JSON_stringify v)) (JSON_stringify v @ []) = Some (v, [])"
    using size_le_length [of v] by (intro parse_value_stringify) (simp_all add: follows_punct)
  moreover have "skip_ws (JSON_stringify v) = JSON_stringify v"
    using skip_ws_stringify [of v "[]"] by simp
  ultimately show ?thesis
    by (simp add: JSON_parse_def skip_ws_def)
qed

subsection \<open>The counter\<close>

text \<open>
  The counter of the parser decides nothing: a parse that succeeds has read more
  characters than it needed of the counter, so every counter from the length of the text
  upwards gives the result that \<open>JSON_parse\<close> gives.
\<close>

lemma length_skip_ws: "length (skip_ws s) \<le> length s"
  by (simp add: skip_ws_def length_dropWhile_le)

lemma skip_ws_Cons_length: "skip_ws s = d # ds \<Longrightarrow> Suc (length ds) \<le> length s"
  using length_skip_ws [of s] by simp

lemma prepend_Some:
  "prepend cs x = Some (str, r) \<Longrightarrow> \<exists>str'. x = Some (str', r)"
  by (cases x) (auto simp add: prepend_def)

lemma parse_string_length: "parse_string s = Some (str, r) \<Longrightarrow> Suc (length r) \<le> length s"
proof (induction s arbitrary: str rule: parse_string.induct)
  case 1
  then show ?case by simp
next
  case (2 c cs)
  show ?case
  proof (cases "c = CHR 0x22")
    case True
    with "2.prems" show ?thesis by simp
  next
    case quote: False
    show ?thesis
    proof (cases "c = CHR 0x5C")
      case False
      with quote "2.prems" have ctl: "\<not> (of_char c :: nat) < 32"
          and p: "prepend [c] (parse_string cs) = Some (str, r)"
        by (auto split: if_splits)
      from p obtain str' where "parse_string cs = Some (str', r)"
        using prepend_Some by blast
      then have "Suc (length r) \<le> length cs"
        using "2.IH"(3) quote False ctl by simp
      then show ?thesis by simp
    next
      case True
      show ?thesis
      proof (cases cs)
        case Nil
        with quote True "2.prems" show ?thesis by simp
      next
        case (Cons e es)
        show ?thesis
        proof (cases "e = CHR ''u''")
          case False
          with quote True Cons "2.prems" obtain ch where ch: "unescape e = Some ch"
              and p: "prepend [ch] (parse_string es) = Some (str, r)"
            by (auto split: option.splits)
          from p obtain str' where "parse_string es = Some (str', r)"
            using prepend_Some by blast
          then have "Suc (length r) \<le> length es"
            using "2.IH"(2) quote True Cons False ch by simp
          then show ?thesis by (simp add: Cons)
        next
          case u: True
          with quote True Cons "2.prems" obtain h1 h2 h3 h4 rest code bytes where
              es: "es = h1 # h2 # h3 # h4 # rest"
              and code: "hex4 h1 h2 h3 h4 = Some code"
              and bytes: "utf8 code = Some bytes"
              and p: "prepend bytes (parse_string rest) = Some (str, r)"
            by (auto split: list.splits option.splits)
          from p obtain str' where "parse_string rest = Some (str', r)"
            using prepend_Some by blast
          then have "Suc (length r) \<le> length rest"
            using "2.IH"(1) quote True Cons u es code bytes by simp
          then show ?thesis by (simp add: Cons es)
        qed
      qed
    qed
  qed
qed

lemma parse_unsigned_length: "parse_unsigned s = Some (n, r) \<Longrightarrow> Suc (length r) \<le> length s"
proof (cases s)
  case Nil
  then show "parse_unsigned s = Some (n, r) \<Longrightarrow> ?thesis"
    by (simp add: parse_unsigned_def)
next
  case (Cons d ds)
  assume "parse_unsigned s = Some (n, r)"
  then have "r = ds \<or> (is_digit d \<and> r = dropWhile is_digit s)"
    by (auto simp add: parse_unsigned_def Cons split: if_splits)
  then show ?thesis
    using length_dropWhile_le [of is_digit ds] by (auto simp add: Cons)
qed

lemma parse_number_length: "parse_number s = Some (i, r) \<Longrightarrow> Suc (length r) \<le> length s"
proof (cases s)
  case Nil
  then show "parse_number s = Some (i, r) \<Longrightarrow> ?thesis"
    by (simp add: parse_number_def)
next
  case (Cons c cs)
  assume a: "parse_number s = Some (i, r)"
  show ?thesis
  proof (cases "c = CHR ''-''")
    case True
    with a obtain n where "parse_unsigned cs = Some (n, r)"
      by (auto simp add: parse_number_def Cons split: option.splits)
    then show ?thesis
      using parse_unsigned_length [of cs n r] by (simp add: Cons)
  next
    case False
    with a obtain n where "parse_unsigned s = Some (n, r)"
      by (auto simp add: parse_number_def Cons split: option.splits)
    then show ?thesis
      by (rule parse_unsigned_length)
  qed
qed

lemma atom_fuel:
  "c \<noteq> CHR ''['' \<Longrightarrow> c \<noteq> CHR ''{'' \<Longrightarrow>
     parse_value (Suc n) (c # cs) = parse_value (Suc m) (c # cs)"
  by simp

lemma literal_length: "literal w v s = Some (v', r) \<Longrightarrow> w \<noteq> [] \<Longrightarrow> v' = v \<and> Suc (length r) \<le> length s"
  by (cases s; cases w) (auto simp add: literal_def split: if_splits)

lemma atom_result:
  assumes "c \<noteq> CHR ''[''" and "c \<noteq> CHR ''{''"
    and "parse_value (Suc n) (c # cs) = Some (v, r)"
  shows "size v = 0 \<and> Suc (length r) \<le> length (c # cs)"
proof -
  consider (null) "c = CHR ''n''" | (true) "c = CHR ''t''" | (false) "c = CHR ''f''"
    | (str) "c = CHR 0x22"
    | (num) "c \<noteq> CHR ''n''" "c \<noteq> CHR ''t''" "c \<noteq> CHR ''f''" "c \<noteq> CHR 0x22"
    by blast
  then show ?thesis
  proof cases
    case null
    with assms(3) have "literal ''null'' JNull (c # cs) = Some (v, r)" by simp
    then show ?thesis using literal_length by fastforce
  next
    case true
    with assms(3) have "literal ''true'' (JBool True) (c # cs) = Some (v, r)" by simp
    then show ?thesis using literal_length by fastforce
  next
    case false
    with assms(3) have "literal ''false'' (JBool False) (c # cs) = Some (v, r)" by simp
    then show ?thesis using literal_length by fastforce
  next
    case str
    with assms(3) obtain s' where "parse_string cs = Some (s', r)" "v = JStr s'"
      by (auto split: option.splits)
    then show ?thesis using parse_string_length [of cs s' r] by simp
  next
    case num
    with assms obtain i where "parse_number (c # cs) = Some (i, r)" "v = JNum i"
      by (auto split: option.splits)
    then show ?thesis using parse_number_length [of "c # cs" i r] by simp
  qed
qed

lemma value_ok_Suc:
  assumes "elements_ok n" and "members_ok n"
  shows "value_ok (Suc n)"
  unfolding value_ok_def
proof (intro allI impI)
  fix s v r
  assume a: "parse_value (Suc n) s = Some (v, r)"
  then obtain c cs where s: "s = c # cs"
    by (cases s) auto
  let ?goal = "length r + Suc (size v) \<le> length s
     \<and> (\<forall>m. Suc (size v) \<le> m \<longrightarrow> parse_value m s = Some (v, r))"
  consider (arr) "c = CHR ''[''" | (obj) "c = CHR ''{''"
    | (atom) "c \<noteq> CHR ''[''" "c \<noteq> CHR ''{''"
    by blast
  then show ?goal
  proof cases
    case atom
    have r: "size v = 0 \<and> Suc (length r) \<le> length (c # cs)"
      using atom a by (intro atom_result [of c n cs v r]) (simp_all add: s)
    have "parse_value m s = Some (v, r)" if "Suc (size v) \<le> m" for m
    proof -
      from that obtain m' where "m = Suc m'" by (cases m) auto
      then show ?thesis
        using a atom_fuel [OF atom, of m' cs n] by (simp add: s)
    qed
    with r show ?thesis by (simp add: s)
  next
    case arr
    from a arr obtain d ds where sk: "skip_ws cs = d # ds"
      by (cases "skip_ws cs") (auto simp add: s)
    have len: "Suc (length ds) \<le> length cs"
      using sk by (rule skip_ws_Cons_length)
    show ?thesis
    proof (cases "d = CHR '']''")
      case True
      with a arr sk have v: "v = JArr []" "r = ds"
        by (auto simp add: s)
      have "parse_value m s = Some (v, r)" if "Suc (size v) \<le> m" for m
      proof -
        from that obtain m' where "m = Suc m'" by (cases m) auto
        then show ?thesis
          using arr sk True by (simp add: s v)
      qed
      with len show ?thesis by (simp add: s v)
    next
      case False
      with a arr sk obtain vs where e: "parse_elements n (d # ds) = Some (vs, r)" and v: "v = JArr vs"
        by (auto simp add: s split: option.splits)
      from assms(1) e have el: "length r + Suc (size_list size vs) \<le> length (d # ds)"
          and ef: "\<And>m. Suc (size_list size vs) \<le> m \<Longrightarrow> parse_elements m (d # ds) = Some (vs, r)"
        unfolding elements_ok_def by blast+
      have "parse_value m s = Some (v, r)" if "Suc (size v) \<le> m" for m
      proof -
        from that obtain m' where m: "m = Suc m'" "Suc (size_list size vs) \<le> m'"
          by (cases m) (auto simp add: v)
        then show ?thesis
          using arr sk False ef [of m'] by (simp add: s v)
      qed
      with el len show ?thesis by (simp add: s v)
    qed
  next
    case obj
    from a obj obtain d ds where sk: "skip_ws cs = d # ds"
      by (cases "skip_ws cs") (auto simp add: s)
    have len: "Suc (length ds) \<le> length cs"
      using sk by (rule skip_ws_Cons_length)
    show ?thesis
    proof (cases "d = CHR ''}''")
      case True
      with a obj sk have v: "v = JObj []" "r = ds"
        by (auto simp add: s)
      have "parse_value m s = Some (v, r)" if "Suc (size v) \<le> m" for m
      proof -
        from that obtain m' where "m = Suc m'" by (cases m) auto
        then show ?thesis
          using obj sk True by (simp add: s v)
      qed
      with len show ?thesis by (simp add: s v)
    next
      case False
      with a obj sk obtain ms where e: "parse_members n (d # ds) = Some (ms, r)" and v: "v = JObj ms"
        by (auto simp add: s split: option.splits)
      from assms(2) e
      have el: "length r + Suc (size_list (size_prod (\<lambda>x. 0) size) ms) \<le> length (d # ds)"
          and ef: "\<And>m. Suc (size_list (size_prod (\<lambda>x. 0) size) ms) \<le> m
                    \<Longrightarrow> parse_members m (d # ds) = Some (ms, r)"
        unfolding members_ok_def by blast+
      have "parse_value m s = Some (v, r)" if "Suc (size v) \<le> m" for m
      proof -
        from that obtain m' where m: "m = Suc m'"
            "Suc (size_list (size_prod (\<lambda>x. 0) size) ms) \<le> m'"
          by (cases m) (auto simp add: v)
        then show ?thesis
          using obj sk False ef [of m'] by (simp add: s v)
      qed
      with el len show ?thesis by (simp add: s v)
    qed
  qed
qed


lemma elements_ok_Suc:
  assumes "value_ok n" and "elements_ok n"
  shows "elements_ok (Suc n)"
  unfolding elements_ok_def
proof (intro allI impI)
  fix s vs r
  assume a: "parse_elements (Suc n) s = Some (vs, r)"
  then obtain v r1 where pv: "parse_value n s = Some (v, r1)"
    by (auto split: option.splits)
  from assms(1) pv have vl: "length r1 + Suc (size v) \<le> length s"
      and vf: "\<And>m. Suc (size v) \<le> m \<Longrightarrow> parse_value m s = Some (v, r1)"
    unfolding value_ok_def by blast+
  from a pv obtain d ds where sk: "skip_ws r1 = d # ds"
    by (cases "skip_ws r1") auto
  have len: "Suc (length ds) \<le> length r1"
    using sk by (rule skip_ws_Cons_length)
  show "length r + Suc (size_list size vs) \<le> length s
     \<and> (\<forall>m. Suc (size_list size vs) \<le> m \<longrightarrow> parse_elements m s = Some (vs, r))"
  proof (cases "d = CHR '',''")
    case True
    with a pv sk obtain vs' where pe: "parse_elements n (skip_ws ds) = Some (vs', r)"
        and vs: "vs = v # vs'"
      by (auto split: option.splits)
    from assms(2) pe have el: "length r + Suc (size_list size vs') \<le> length (skip_ws ds)"
        and ef: "\<And>m. Suc (size_list size vs') \<le> m
                  \<Longrightarrow> parse_elements m (skip_ws ds) = Some (vs', r)"
      unfolding elements_ok_def by blast+
    have "parse_elements m s = Some (vs, r)" if "Suc (size_list size vs) \<le> m" for m
    proof -
      from that obtain m' where m: "m = Suc m'" "Suc (size v) \<le> m'"
          "Suc (size_list size vs') \<le> m'"
        by (cases m) (auto simp add: vs)
      then show ?thesis
        using vf [of m'] ef [of m'] sk True by (simp add: vs)
    qed
    moreover have "length r + Suc (size_list size vs) \<le> length s"
      using el vl len length_skip_ws [of ds] by (simp add: vs)
    ultimately show ?thesis by blast
  next
    case False
    with a pv sk have vs: "d = CHR '']''" "vs = [v]" "r = ds"
      by (auto split: if_splits)
    have "parse_elements m s = Some (vs, r)" if "Suc (size_list size vs) \<le> m" for m
    proof -
      from that obtain m' where m: "m = Suc m'" "Suc (size v) \<le> m'"
        by (cases m) (auto simp add: vs)
      then show ?thesis
        using vf [of m'] sk by (simp add: vs)
    qed
    moreover have "length r + Suc (size_list size vs) \<le> length s"
      using vl len by (simp add: vs)
    ultimately show ?thesis by blast
  qed
qed

lemma members_ok_Suc:
  assumes "value_ok n" and "members_ok n"
  shows "members_ok (Suc n)"
  unfolding members_ok_def
proof (intro allI impI)
  fix s ms r
  assume a: "parse_members (Suc n) s = Some (ms, r)"
  then obtain qs where s: "s = CHR 0x22 # qs"
    by (cases s) (auto split: if_splits)
  from a obtain k r0 where ps: "parse_string qs = Some (k, r0)"
    by (auto simp add: s split: option.splits)
  have l0: "Suc (length r0) \<le> length qs"
    using ps by (rule parse_string_length)
  from a ps obtain r1 where sk0: "skip_ws r0 = CHR '':'' # r1"
    by (cases "skip_ws r0") (auto simp add: s split: if_splits)
  have l1: "Suc (length r1) \<le> length r0"
    using sk0 by (rule skip_ws_Cons_length)
  from a ps sk0 obtain v r2 where pv: "parse_value n (skip_ws r1) = Some (v, r2)"
    by (auto simp add: s split: option.splits)
  from assms(1) pv have vl: "length r2 + Suc (size v) \<le> length (skip_ws r1)"
      and vf: "\<And>m. Suc (size v) \<le> m \<Longrightarrow> parse_value m (skip_ws r1) = Some (v, r2)"
    unfolding value_ok_def by blast+
  from a ps sk0 pv obtain d ds where sk: "skip_ws r2 = d # ds"
    by (cases "skip_ws r2") (auto simp add: s)
  have len: "Suc (length ds) \<le> length r2"
    using sk by (rule skip_ws_Cons_length)
  let ?sz = "size_list (size_prod (\<lambda>x. 0) size)"
  show "length r + Suc (?sz ms) \<le> length s
     \<and> (\<forall>m. Suc (?sz ms) \<le> m \<longrightarrow> parse_members m s = Some (ms, r))"
  proof (cases "d = CHR '',''")
    case True
    with a ps sk0 pv sk obtain ms' where pe: "parse_members n (skip_ws ds) = Some (ms', r)"
        and ms: "ms = (k, v) # ms'"
      by (auto simp add: s split: option.splits)
    from assms(2) pe have el: "length r + Suc (?sz ms') \<le> length (skip_ws ds)"
        and ef: "\<And>m. Suc (?sz ms') \<le> m \<Longrightarrow> parse_members m (skip_ws ds) = Some (ms', r)"
      unfolding members_ok_def by blast+
    have "parse_members m s = Some (ms, r)" if "Suc (?sz ms) \<le> m" for m
    proof -
      from that obtain m' where m: "m = Suc m'" "Suc (size v) \<le> m'" "Suc (?sz ms') \<le> m'"
        by (cases m) (auto simp add: ms)
      then show ?thesis
        using vf [of m'] ef [of m'] ps sk0 sk True by (simp add: s ms)
    qed
    moreover have "length r + Suc (?sz ms) \<le> length s"
      using el vl len l0 l1 length_skip_ws [of ds] length_skip_ws [of r1] by (simp add: ms s)
    ultimately show ?thesis by blast
  next
    case False
    with a ps sk0 pv sk have ms: "d = CHR ''}''" "ms = [(k, v)]" "r = ds"
      by (auto simp add: s split: if_splits)
    have "parse_members m s = Some (ms, r)" if "Suc (?sz ms) \<le> m" for m
    proof -
      from that obtain m' where m: "m = Suc m'" "Suc (size v) \<le> m'"
        by (cases m) (auto simp add: ms)
      then show ?thesis
        using vf [of m'] ps sk0 sk by (simp add: s ms)
    qed
    moreover have "length r + Suc (?sz ms) \<le> length s"
      using vl len l0 l1 length_skip_ws [of r1] by (simp add: ms s)
    ultimately show ?thesis by blast
  qed
qed

lemma parse_ok: "value_ok n \<and> elements_ok n \<and> members_ok n"
proof (induction n)
  case 0
  show ?case by (simp add: value_ok_def elements_ok_def members_ok_def)
next
  case (Suc n)
  then show ?case
    by (simp add: value_ok_Suc elements_ok_Suc members_ok_Suc)
qed

lemma parse_value_fuel:
  assumes "length s \<le> n"
  shows "parse_value n s = parse_value (length s) s"
proof (cases "parse_value n s")
  case None
  show ?thesis
  proof (cases "parse_value (length s) s")
    case None
    with \<open>parse_value n s = None\<close> show ?thesis by simp
  next
    case (Some p)
    obtain v r where p: "p = (v, r)" by (cases p)
    have "value_ok (length s)" using parse_ok by blast
    with Some p have "length r + Suc (size v) \<le> length s"
        and "\<And>m. Suc (size v) \<le> m \<Longrightarrow> parse_value m s = Some (v, r)"
      unfolding value_ok_def by blast+
    with assms have "parse_value n s = Some (v, r)" by simp
    with None show ?thesis by simp
  qed
next
  case (Some p)
  obtain v r where p: "p = (v, r)" by (cases p)
  have "value_ok n" using parse_ok by blast
  with Some p have "length r + Suc (size v) \<le> length s"
      and "\<And>m. Suc (size v) \<le> m \<Longrightarrow> parse_value m s = Some (v, r)"
    unfolding value_ok_def by blast+
  then have "parse_value (length s) s = Some (v, r)" by simp
  with Some p show ?thesis by simp
qed

lemma JSON_parse_fuel:
  assumes "length s \<le> n"
  shows "(case parse_value n (skip_ws s) of
            None \<Rightarrow> None
          | Some (v, r) \<Rightarrow> if skip_ws r = [] then Some v else None) = JSON_parse s"
proof -
  have le: "length (skip_ws s) \<le> length s"
    by (rule length_skip_ws)
  have "parse_value n (skip_ws s) = parse_value (length (skip_ws s)) (skip_ws s)"
    by (rule parse_value_fuel) (use le assms in linarith)
  moreover have "parse_value (length s) (skip_ws s)
      = parse_value (length (skip_ws s)) (skip_ws s)"
    by (rule parse_value_fuel) (rule le)
  ultimately show ?thesis
    by (simp only: JSON_parse_def)
qed

section \<open>The facade on a run of the test scripts\<close>

text \<open>
  After \<^verbatim>\<open>init\<close> and \<^verbatim>\<open>createTopic('test')\<close> against the quiet service, the
  facade and the world are these.
\<close>

lemmas run_defs = constructor_def test_config_def quiet_def init_def getTopics_def log_def
  success_def heard_def issue_def Let_def js_object_def new_PubSubCore_def template_def
  List.map_filter_simps after_def createTopic_def client_topic_def topic_exists_def
  topic_create_def started_def

lemmas sub_defs = subscribe_def unsubscribe_def topic_subscription_def subscription_exists_def
  subscription_create_def subscription_delete_def sub_key_def attach_def allocate_def on_def
  removeListener_def remove_last_def subscription_data_def

lemma started_eq:
  "started em =
     (\<lparr>name = ''pubsub'',
       emitter =
         em\<lparr>emitted := emitted em @
           [LogEvent ''pubsub'' ''Using config''
              (Some (JObj [(''projectId'', JStr ''quizizz-dev''), (''email'', JStr ''n/a''),
                           (''method'', JStr ''KeyFile'')])),
            SuccessEvent ''pubsub'' ''Successfully connected on project quizizz-dev'' None,
            LogEvent ''pubsub'' ''Creating topic test'' None,
            SuccessEvent ''pubsub'' (''Topic '' @ [CHR 0x22] @ ''test'' @ [CHR 0x22] @ '' created'')
              None]\<rparr>,
       config = \<lparr>projectId = Some ''quizizz-dev'', config_file = None, credentials = None,
                  ack_deadline_seconds = Value 300\<rparr>,
       client = Some \<lparr>core_projectId = Some ''quizizz-dev'', keyFile = None,
                       core_credentials = None\<rparr>,
       topics = [''test'' \<mapsto> Topic ''test'']\<rparr>,
      \<lparr>faults = (\<lambda>r. None),
       calls = [GetTopics, TopicExists ''test'', TopicCreate ''test''],
       remote_topics = {''test''}, remote_subscriptions = {}, published = [],
       listeners = (\<lambda>k. []), allocated = 0, unhandled = []\<rparr>)"
  by (simp add: run_defs)

lemmas ready_eq = started_eq [of test_emitter, folded ready_def]

lemma ready_listens: "listenerCount (emitter (fst ready)) ''error'' = 1"
  by (simp add: ready_eq test_emitter_def)

lemma ready_topics: "topics (fst ready) = [''test'' \<mapsto> Topic ''test'']"
  by (simp add: ready_eq)

lemma ready_name: "name (fst ready) = ''pubsub''"
  by (simp add: ready_eq)

lemma ready_world:
  "snd ready = quiet\<lparr>calls := [GetTopics, TopicExists ''test'', TopicCreate ''test''],
                     remote_topics := {''test''}\<rparr>"
  by (simp add: ready_eq quiet_def)

section \<open>Construction and initialisation\<close>

text \<open>
  C2, as the claim states it, fails: the constructor of \<^verbatim>\<open>src/PubSub.ts\<close> checks
  nothing, and a configuration without \<^verbatim>\<open>projectId\<close> constructs a facade. (The
  earlier JavaScript version passed the configuration to its validator.)
\<close>

theorem constructor_accepts_missing_projectId:
  "constructor ''pubsub'' new_EventEmitter
     \<lparr>projectId = None, config_file = None, credentials = None, ack_deadline_seconds = Absent\<rparr>
   = Inr \<lparr>name = ''pubsub'', emitter = new_EventEmitter,
          config = \<lparr>projectId = None, config_file = None, credentials = None,
                    ack_deadline_seconds = Value 300\<rparr>,
          client = None, topics = Map.empty\<rparr>"
  by (simp add: constructor_def)

text \<open>
  C2, amended. Construction performs no validation and succeeds for every configuration,
  with \<^verbatim>\<open>projectId\<close> or without it. The facade it returns has the name and the
  emitter it was given, the \<^verbatim>\<open>projectId\<close> and the credential fields of the
  configuration as they are, a null client and an empty registry. The constructor reads
  nothing but its arguments, so no request is issued.
\<close>

theorem constructor_total:
  "\<exists>s. constructor n em cfg = Inr s
     \<and> name s = n \<and> emitter s = em
     \<and> projectId (config s) = projectId cfg
     \<and> config_file (config s) = config_file cfg
     \<and> credentials (config s) = credentials cfg
     \<and> client s = None \<and> topics s = Map.empty"
  by (simp add: constructor_def)

text \<open>
  C10. When the connectivity check of \<^verbatim>\<open>init\<close> (listing the topics) fails, the
  promise of \<^verbatim>\<open>init\<close> rejects with that error and the client field is what it was
  before the call, as are the registry and the configuration: the client is assigned only
  in the continuation of a successful check.
\<close>

theorem init_failure_keeps_client:
  assumes "fst (getTopics (new_PubSubCore (config s)) w) = Inl e"
  shows "fst (init (s, w)) = Inl e
    \<and> client (fst (after (init (s, w)))) = client s
    \<and> topics (fst (after (init (s, w)))) = topics s
    \<and> config (fst (after (init (s, w)))) = config s"
  using assms
  by (auto simp add: init_def after_def log_def Let_def split: prod.splits sum.splits)

text \<open>
  For a freshly constructed facade and a service that cannot be reached, the client is
  still null after \<^verbatim>\<open>init\<close>.
\<close>

theorem init_failure_keeps_client_witness:
  "fst (getTopics (new_PubSubCore (config (projr (constructor ''pubsub'' test_emitter test_config))))
          (refusing GetTopics quiet)) = Inl (ServiceError ''UNAVAILABLE'')
   \<and> fst (init (projr (constructor ''pubsub'' test_emitter test_config), refusing GetTopics quiet))
       = Inl (ServiceError ''UNAVAILABLE'')
   \<and> client (fst (after (init (projr (constructor ''pubsub'' test_emitter test_config),
                                 refusing GetTopics quiet)))) = None"
proof -
  have g: "fst (getTopics (new_PubSubCore (config (projr (constructor ''pubsub'' test_emitter test_config))))
          (refusing GetTopics quiet)) = Inl (ServiceError ''UNAVAILABLE'')"
    by (simp add: getTopics_def refusing_def)
  have c: "client (projr (constructor ''pubsub'' test_emitter test_config)) = None"
    by (simp add: constructor_def)
  show ?thesis
    using init_failure_keeps_client [OF g] g by (simp add: c)
qed

section \<open>Topics\<close>

text \<open>
  C4. On an initialised facade, with a transport that answers the existence check and the
  creation, \<^verbatim>\<open>createTopic(n)\<close> called twice in sequence resolves with \<^verbatim>\<open>true\<close>
  both times. The first call creates the topic only when it does not exist upstream;
  the second call finds it, issues the existence check alone, reports "already exists"
  and leaves the registry entry and the upstream topics as the first call left them.
\<close>

theorem createTopic_twice:
  assumes "client s = Some c"
    and "faults w (TopicExists n) = None"
    and "faults w (TopicCreate n) = None"
  shows "fst (createTopic n (s, w)) = Inr True
    \<and> fst (createTopic n (after (createTopic n (s, w)))) = Inr True
    \<and> topics (fst (after (createTopic n (s, w)))) = (topics s)(n \<mapsto> Topic n)
    \<and> topics (fst (after (createTopic n (after (createTopic n (s, w))))))
        = (topics s)(n \<mapsto> Topic n)
    \<and> calls (snd (after (createTopic n (s, w))))
        = calls w @ (if n \<in> remote_topics w then [TopicExists n]
                     else [TopicExists n, TopicCreate n])
    \<and> calls (snd (after (createTopic n (after (createTopic n (s, w))))))
        = calls (snd (after (createTopic n (s, w)))) @ [TopicExists n]
    \<and> remote_topics (snd (after (createTopic n (s, w)))) = insert n (remote_topics w)
    \<and> remote_topics (snd (after (createTopic n (after (createTopic n (s, w))))))
        = insert n (remote_topics w)
    \<and> emitted (emitter (fst (after (createTopic n (after (createTopic n (s, w)))))))
        = emitted (emitter (fst (after (createTopic n (s, w)))))
          @ [LogEvent (name s) (''Creating topic '' @ n) None,
             SuccessEvent (name s) (''Topic '' @ [CHR 0x22] @ n @ [CHR 0x22] @ '' already exists'')
               None]
    \<and> listenerCount (emitter (fst (after (createTopic n (after (createTopic n (s, w)))))))
        = listenerCount (emitter s)"
  using assms
  by (auto simp add: createTopic_def after_def topic_exists_def topic_create_def issue_def Let_def
        client_topic_def log_def success_def heard_def)

text \<open>
  The run of the test script calls \<^verbatim>\<open>createTopic('test')\<close> once; a second call
  adds one existence check and nothing else.
\<close>

theorem createTopic_twice_witness:
  "client (fst (after (init (projr (constructor ''pubsub'' test_emitter test_config), quiet)))) 
     = Some \<lparr>core_projectId = Some ''quizizz-dev'', keyFile = None, core_credentials = None\<rparr>
   \<and> faults (snd (after (init (projr (constructor ''pubsub'' test_emitter test_config), quiet))))
        (TopicExists ''test'') = None
   \<and> faults (snd (after (init (projr (constructor ''pubsub'' test_emitter test_config), quiet))))
        (TopicCreate ''test'') = None
   \<and> fst (createTopic ''test'' ready) = Inr True
   \<and> topics (fst (after (createTopic ''test'' ready))) = [''test'' \<mapsto> Topic ''test'']
   \<and> calls (snd (after (createTopic ''test'' ready)))
       = [GetTopics, TopicExists ''test'', TopicCreate ''test'', TopicExists ''test'']"
proof -
  let ?s = "fst (after (init (projr (constructor ''pubsub'' test_emitter test_config), quiet)))"
  let ?w = "snd (after (init (projr (constructor ''pubsub'' test_emitter test_config), quiet)))"
  have c: "client ?s
     = Some \<lparr>core_projectId = Some ''quizizz-dev'', keyFile = None, core_credentials = None\<rparr>"
    by (simp add: run_defs)
  have e: "faults ?w (TopicExists ''test'') = None"
    by (simp add: run_defs)
  have k: "faults ?w (TopicCreate ''test'') = None"
    by (simp add: run_defs)
  have r: "ready = after (createTopic ''test'' (?s, ?w))"
    by (simp add: ready_def started_def)
  have t: "topics ?s = Map.empty" and cw: "calls ?w = [GetTopics]" and rt: "remote_topics ?w = {}"
    by (simp_all add: run_defs)
  show ?thesis
    using createTopic_twice [OF c e k] c e k
    by (simp add: r t cw rt)
qed

text \<open>
  C9. When \<^verbatim>\<open>deleteTopic(n)\<close> resolves for a name \<open>n\<close> of the registry, it
  resolves with \<^verbatim>\<open>true\<close>, the topic registered under \<open>n\<close> is deleted upstream,
  one log event is emitted, the entry for \<open>n\<close> is gone from the registry and every
  other entry is as before.
\<close>

theorem deleteTopic_removes_entry:
  assumes "topics s n = Some t"
    and "fst (deleteTopic n (s, w)) = Inr r"
  shows "r = True
    \<and> topic_name t \<in> remote_topics w
    \<and> remote_topics (snd (after (deleteTopic n (s, w)))) = remote_topics w - {topic_name t}
    \<and> calls (snd (after (deleteTopic n (s, w)))) = calls w @ [TopicDelete (topic_name t)]
    \<and> emitted (emitter (fst (after (deleteTopic n (s, w)))))
        = emitted (emitter s) @ [LogEvent (name s) (''Deleted topic '' @ topic_name t) None]
    \<and> listenerCount (emitter (fst (after (deleteTopic n (s, w))))) = listenerCount (emitter s)
    \<and> topics (fst (after (deleteTopic n (s, w)))) n = None
    \<and> (\<forall>m. m \<noteq> n \<longrightarrow> topics (fst (after (deleteTopic n (s, w)))) m = topics s m)"
  using assms
  by (auto simp add: deleteTopic_def topic_delete_def after_def log_def heard_def issue_def
        split: option.splits if_splits)

text \<open>
  With the topics \<^verbatim>\<open>test\<close> and \<^verbatim>\<open>other\<close> registered, deleting \<^verbatim>\<open>test\<close>
  leaves \<^verbatim>\<open>other\<close> registered and upstream.
\<close>

theorem deleteTopic_removes_entry_witness:
  "topics (fst (after (createTopic ''other'' ready))) ''test'' = Some (Topic ''test'')
   \<and> fst (deleteTopic ''test'' (after (createTopic ''other'' ready))) = Inr True
   \<and> remote_topics (snd (after (deleteTopic ''test'' (after (createTopic ''other'' ready)))))
       = {''other''}
   \<and> topics (fst (after (deleteTopic ''test'' (after (createTopic ''other'' ready))))) ''test''
       = None
   \<and> topics (fst (after (deleteTopic ''test'' (after (createTopic ''other'' ready))))) ''other''
       = Some (Topic ''other'')"
proof -
  obtain s w where sw: "after (createTopic ''other'' ready) = (s, w)"
    by (cases "after (createTopic ''other'' ready)")
  have s: "topics s = [''test'' \<mapsto> Topic ''test'', ''other'' \<mapsto> Topic ''other'']"
    and w: "remote_topics w = {''other'', ''test''}" "faults w = (\<lambda>r. None)"
    using sw by (auto simp add: ready_eq run_defs)
  have t: "topics s ''test'' = Some (Topic ''test'')"
    by (simp add: s)
  have d: "fst (deleteTopic ''test'' (s, w)) = Inr True"
    by (simp add: deleteTopic_def topic_delete_def t w)
  show ?thesis
    using deleteTopic_removes_entry [OF t d] t d
    by (auto simp add: sw s w)
qed

section \<open>Subscriptions\<close>

lemma attach_message_listener:
  "(''message'', MessageListener (allocated w) cb) \<in> set (listeners (attach topic cb sub w) (sub_key sub))"
  by (simp add: attach_def allocate_def on_def)

lemma deliver_member:
  assumes "(''message'', MessageListener k cb) \<in> set (listeners w key)"
  shows "(cb, Envelope (message_listener decode safe msg)) \<in> set (deliver decode safe w key msg)"
  using assms by (force simp add: deliver_def)

text \<open>
  What \<^verbatim>\<open>unsubscribe\<close> does to the listeners, for every callback: the closure that
  \<^verbatim>\<open>subscribe\<close> attached around \<open>cb\<close> is a function other than \<open>cb\<close>, so
  removing \<open>cb\<close> leaves it where it is.
\<close>

lemma remove_last_keeps: "y \<in> set xs \<Longrightarrow> y \<noteq> x \<Longrightarrow> y \<in> set (remove_last x xs)"
  by (simp add: remove_last_def)

lemma wrapper_is_not_callback: "MessageListener k cb \<noteq> cb"
  by (induction cb arbitrary: k) auto

lemma subscribe_topics: "topics (fst (after (subscribe t n cb opts (s, w)))) = topics s"
  by (auto simp add: subscribe_def after_def Let_def log_def success_def
        split: option.splits prod.splits sum.splits)

lemma unsubscribe_listeners:
  assumes "topics s t = Some topic"
  shows "listeners (snd (after (unsubscribe t n cb (s, w))))
       = (listeners w)((topic_name topic, n)
            := remove_last (''message'', cb) (listeners w (topic_name topic, n)))"
  using assms
  by (auto simp add: unsubscribe_def after_def Let_def removeListener_def subscription_delete_def
        issue_def sub_key_def topic_subscription_def split: option.splits)

lemma unsubscribe_keeps_message_listener:
  assumes "topics s t = Some topic"
    and "fst (subscribe t n cb opts (s, w)) = Inr True"
  shows "\<exists>k. (''message'', MessageListener k cb)
       \<in> set (listeners (snd (after (unsubscribe t n cb (after (subscribe t n cb opts (s, w))))))
              (topic_name topic, n))"
proof -
  obtain s' w' where sw: "after (subscribe t n cb opts (s, w)) = (s', w')"
    by (cases "after (subscribe t n cb opts (s, w))")
  have t': "topics s' t = Some topic"
    using subscribe_topics [of t n cb opts s w] assms(1) by (simp add: sw)
  let ?sub = "topic_subscription topic n
      (Some \<lparr>maxMessages = (case maxInProgress opts of None \<Rightarrow> 1 | Some m \<Rightarrow> m),
             ackDeadline = (case ackDeadlineSeconds opts of
                              None \<Rightarrow> value_of (ack_deadline_seconds (config s))
                            | Some d \<Rightarrow> Some d)\<rparr>)"
  have "\<exists>w0. w' = attach topic cb ?sub w0"
    using assms sw
    by (auto simp add: subscribe_def after_def Let_def subscription_exists_def
          subscription_create_def split: option.splits if_splits)
  then obtain w0 where w0: "w' = attach topic cb ?sub w0"
    by blast
  have "(''message'', MessageListener (allocated w0) cb) \<in> set (listeners w' (topic_name topic, n))"
    using attach_message_listener [of w0 cb topic ?sub]
    by (simp add: w0 sub_key_def topic_subscription_def)
  moreover have "(''message'', MessageListener (allocated w0) cb) \<noteq> (''message'', cb)"
    by (simp add: wrapper_is_not_callback)
  ultimately have "(''message'', MessageListener (allocated w0) cb)
      \<in> set (remove_last (''message'', cb) (listeners w' (topic_name topic, n)))"
    by (rule remove_last_keeps)
  then show ?thesis
    using unsubscribe_listeners [OF t', of n cb w'] by (auto simp add: sw)
qed

text \<open>
  C7 fails on the code. \<^verbatim>\<open>subscribe\<close> attaches a closure around \<open>cb\<close>, not
  \<open>cb\<close>; \<^verbatim>\<open>unsubscribe\<close> asks the subscription to remove \<open>cb\<close>, which was
  never attached. After \<^verbatim>\<open>subscribe\<close> and \<^verbatim>\<open>unsubscribe\<close> with the same
  function, the listener that \<^verbatim>\<open>subscribe\<close> attached is still there; the subscription
  is deleted upstream and both calls resolve with \<^verbatim>\<open>true\<close>.
\<close>

theorem unsubscribe_leaves_listener:
  "fst (subscribe ''test'' ''test_subs'' (UserFunction 0) test_options ready) = Inr True
   \<and> listeners (snd (after (subscribe ''test'' ''test_subs'' (UserFunction 0) test_options ready)))
        (''test'', ''test_subs'')
       = [(''message'', MessageListener 0 (UserFunction 0)),
          (''error'', ErrorListener 1 ''test'' ''test_subs'')]
   \<and> fst (unsubscribe ''test'' ''test_subs'' (UserFunction 0)
            (after (subscribe ''test'' ''test_subs'' (UserFunction 0) test_options ready)))
       = Inr True
   \<and> listeners (snd (after (unsubscribe ''test'' ''test_subs'' (UserFunction 0)
            (after (subscribe ''test'' ''test_subs'' (UserFunction 0) test_options ready)))))
        (''test'', ''test_subs'')
       = [(''message'', MessageListener 0 (UserFunction 0)),
          (''error'', ErrorListener 1 ''test'' ''test_subs'')]
   \<and> remote_subscriptions (snd (after (unsubscribe ''test'' ''test_subs'' (UserFunction 0)
            (after (subscribe ''test'' ''test_subs'' (UserFunction 0) test_options ready)))))
       = {}"
  by (simp add: ready_eq test_options_def sub_defs after_def issue_def log_def success_def
        js_object_def List.map_filter_simps Let_def)

text \<open>
  C8. After a successful \<^verbatim>\<open>subscribe\<close>, a raw message emitted by the subscription
  reaches \<open>cb\<close> as an envelope in which \<^verbatim>\<open>ack\<close> is bound to the message,
  \<^verbatim>\<open>nack\<close> and \<^verbatim>\<open>skip\<close> are bound to the message when it has them and do
  nothing otherwise, and \<^verbatim>\<open>data\<close> is what \<^verbatim>\<open>safeJSON\<close> gives for the decoded
  payload, whatever the decoding and whatever function is called on the text. With
  \<^verbatim>\<open>safeJSON\<close> as the spec has it, that is the parse of the payload text when the
  parser gives one and the fallback value when it does not, for every parser and every
  fallback.
\<close>

theorem subscribe_envelope:
  assumes "topics s topicName = Some topic"
    and "fst (subscribe topicName subName cb options (s, w)) = Inr True"
  shows "(cb, Envelope (message_listener decode safe msg))
        \<in> set (deliver decode safe (snd (after (subscribe topicName subName cb options (s, w))))
                 (topic_name topic, subName) msg)
    \<and> ack (message_listener decode safe msg) = Bound Ack (msg_id msg)
    \<and> nack (message_listener decode safe msg)
        = (if has_nack msg then Bound Nack (msg_id msg) else Noop)
    \<and> skip (message_listener decode safe msg)
        = (if has_skip msg then Bound Skip (msg_id msg) else Noop)
    \<and> data (message_listener decode safe msg) = safe (decode (msg_data msg))
    \<and> data (message_listener decode (safeJSON parse fallback) msg)
        = (case parse (decode (msg_data msg)) of
             Some v \<Rightarrow> v
           | None \<Rightarrow> fallback (decode (msg_data msg)))
    \<and> invoke (ack (message_listener decode safe msg)) acks = acks @ [(Ack, msg_id msg)]
    \<and> invoke Noop acks = acks"
proof -
  let ?sub = "topic_subscription topic subName
      (Some \<lparr>maxMessages = (case maxInProgress options of None \<Rightarrow> 1 | Some m \<Rightarrow> m),
             ackDeadline = (case ackDeadlineSeconds options of
                              None \<Rightarrow> value_of (ack_deadline_seconds (config s))
                            | Some d \<Rightarrow> Some d)\<rparr>)"
  have key: "sub_key ?sub = (topic_name topic, subName)"
    by (simp add: sub_key_def topic_subscription_def)
  have "\<exists>w'. snd (after (subscribe topicName subName cb options (s, w))) = attach topic cb ?sub w'"
    using assms
    by (auto simp add: subscribe_def after_def Let_def subscription_exists_def
          subscription_create_def split: option.splits if_splits)
  then obtain w' where
    w': "snd (after (subscribe topicName subName cb options (s, w))) = attach topic cb ?sub w'"
    by blast
  have "(''message'', MessageListener (allocated w') cb)
      \<in> set (listeners (attach topic cb ?sub w') (topic_name topic, subName))"
    using attach_message_listener [of w' cb topic ?sub] by (simp only: key)
  then have "(cb, Envelope (message_listener decode safe msg))
      \<in> set (deliver decode safe (attach topic cb ?sub w') (topic_name topic, subName) msg)"
    by (rule deliver_member)
  then show ?thesis
    by (simp add: w' message_listener_def safeJSON_def invoke_def)
qed

lemma JSON_parse_sample_payload: "JSON_parse sample_payload = Some (JObj [(''a'', JNum 1)])"
  by (simp add: sample_payload_def JSON_parse_def skip_ws_def is_ws_def parse_number_def
        parse_unsigned_def is_digit_def parse_digits_def digit_val_def prepend_def)

lemma JSON_parse_malformed: "JSON_parse ''{bad json'' = None"
  by (simp add: JSON_parse_def skip_ws_def is_ws_def)

text \<open>
  With the parser and the decoding of this development and the raw text as the fallback:
  the payload \<^verbatim>\<open>{"a":1}\<close> arrives as the object with \<^verbatim>\<open>a = 1\<close>, the payload
  \<^verbatim>\<open>{bad json\<close> as the raw text.
\<close>

theorem subscribe_envelope_witness:
  "topics (fst ready) ''test'' = Some (Topic ''test'')
   \<and> fst (subscribe ''test'' ''test_subs'' (UserFunction 0) test_options ready) = Inr True
   \<and> (UserFunction 0,
        Envelope \<lparr>nack = Bound Nack 7, skip = Noop, ack = Bound Ack 7,
                  data = JObj [(''a'', JNum 1)]\<rparr>)
       \<in> set (deliver toString (safeJSON JSON_parse JStr)
                (snd (after (subscribe ''test'' ''test_subs'' (UserFunction 0) test_options ready)))
                (''test'', ''test_subs'')
                \<lparr>msg_id = 7, msg_data = Buffer_from sample_payload, has_nack = True,
                 has_skip = False\<rparr>)
   \<and> data (message_listener toString (safeJSON JSON_parse JStr)
              \<lparr>msg_id = 8, msg_data = Buffer_from ''{bad json'', has_nack = False,
               has_skip = False\<rparr>)
       = JStr ''{bad json''"
proof -
  obtain s w where sw: "ready = (s, w)"
    by (cases ready)
  have t: "topics s ''test'' = Some (Topic ''test'')"
    using sw by (auto simp add: ready_eq)
  have r: "fst (subscribe ''test'' ''test_subs'' (UserFunction 0) test_options (s, w)) = Inr True"
    using sw by (auto simp add: ready_eq test_options_def sub_defs Let_def issue_def)
  have m: "message_listener toString (safeJSON JSON_parse JStr)
      \<lparr>msg_id = 7, msg_data = Buffer_from sample_payload, has_nack = True, has_skip = False\<rparr>
      = \<lparr>nack = Bound Nack 7, skip = Noop, ack = Bound Ack 7, data = JObj [(''a'', JNum 1)]\<rparr>"
    by (simp add: message_listener_def safeJSON_def toString_Buffer_from JSON_parse_sample_payload)
  show ?thesis
    using subscribe_envelope [OF t r, of toString "safeJSON JSON_parse JStr"
        "\<lparr>msg_id = 7, msg_data = Buffer_from sample_payload, has_nack = True, has_skip = False\<rparr>"
        JSON_parse JStr "[]"]
      subscribe_envelope [OF t r, of toString "safeJSON JSON_parse JStr"
        "\<lparr>msg_id = 8, msg_data = Buffer_from ''{bad json'', has_nack = False, has_skip = False\<rparr>"
        JSON_parse JStr "[]"]
      t r
    by (simp add: sw m toString_Buffer_from JSON_parse_malformed JSON_parse_sample_payload
          safeJSON_def)
qed

section \<open>Publishing\<close>

text \<open>
  With \<^verbatim>\<open>handle = false\<close> the promise of \<^verbatim>\<open>publish\<close> on a registered topic never
  rejects, whatever the transport does, and the emitter hears nothing.
\<close>

lemma publish_unhandled_resolves:
  assumes "topics s topicName = Some topic"
  shows "fst (publish topicName content meta False (s, w)) = Inr ()
    \<and> fst (after (publish topicName content meta False (s, w))) = s"
  using assms
  by (simp add: publish_def after_def split: prod.splits)

text \<open>
  C1 fails on the code. With \<^verbatim>\<open>handle = false\<close> and a transport that refuses the
  publish, the promise of \<^verbatim>\<open>publish\<close> resolves: the method returns without the
  publish promise, whose rejection is handled by nobody, and no error event is emitted.
  (The earlier JavaScript version returned the publish promise itself.)
\<close>

theorem publish_unhandled_failure_resolves:
  "fst (publish ''test'' (Some (JObj [(''x'', JNum 1)])) (JObj []) False
          (fst ready, refusing (Publish ''test'') (snd ready))) = Inr ()
   \<and> unhandled (snd (after (publish ''test'' (Some (JObj [(''x'', JNum 1)])) (JObj []) False
          (fst ready, refusing (Publish ''test'') (snd ready)))))
       = [ServiceError ''UNAVAILABLE'']
   \<and> emitter (fst (after (publish ''test'' (Some (JObj [(''x'', JNum 1)])) (JObj []) False
          (fst ready, refusing (Publish ''test'') (snd ready)))))
       = emitter (fst ready)"
  by (simp add: refusing_def ready_topics ready_world publish_def topic_publish_def
        issue_def after_def quiet_def)

text \<open>
  C3, as the claim states it, fails. The \<^verbatim>\<open>catch\<close> handler reports the failure with
  \<^verbatim>\<open>this.emitter.emit('error', ...)\<close>; the constructor attaches no listener, and an
  emitter without a listener for \<^verbatim>\<open>error\<close> throws on that call. On the run of the
  script with an emitter nobody listens to, a refused publish with \<^verbatim>\<open>handle = true\<close>
  rejects with the emitter's error.
\<close>

theorem publish_handled_failure_unheard:
  "topics (fst (started new_EventEmitter)) ''test'' = Some (Topic ''test'')
   \<and> fst (publish ''test'' (Some (JObj [(''x'', JNum 1)])) (JObj []) True
          (fst (started new_EventEmitter),
           refusing (Publish ''test'') (snd (started new_EventEmitter))))
       = Inl (NodeError ''ERR_UNHANDLED_ERROR'')"
  by (simp add: started_eq new_EventEmitter_def refusing_def publish_def topic_publish_def
        error_def issue_def)

text \<open>
  C3, amended. For a registered topic and an emitter that has a listener for
  \<^verbatim>\<open>error\<close>, \<^verbatim>\<open>publish\<close> with \<^verbatim>\<open>handle = true\<close> resolves also when the
  transport refuses the publish: one error event with the topic name, the content and the
  meta is emitted, the error is not raised to the caller, and no rejection is left
  unhandled.
\<close>

theorem publish_handled_failure:
  assumes "topics s topicName = Some topic"
    and "fst (topic_publish topic (Buffer_from (JSON_stringify (envelope content meta))) w) = Inl err"
    and "0 < listenerCount (emitter s) ''error''"
  shows "fst (publish topicName content meta True (s, w)) = Inr ()
    \<and> emitted (emitter (fst (after (publish topicName content meta True (s, w)))))
        = emitted (emitter s)
          @ [ErrorEvent (name s)
               (Some (js_object [(''topicName'', Some (JStr topicName)),
                                 (''message'', content),
                                 (''options'', Some meta)])) err]
    \<and> listenerCount (emitter (fst (after (publish topicName content meta True (s, w)))))
        = listenerCount (emitter s)
    \<and> unhandled (snd (after (publish topicName content meta True (s, w)))) = unhandled w"
  using assms
  by (auto simp add: publish_def after_def error_def heard_def topic_publish_def
        issue_def split: prod.splits option.splits if_splits)

text \<open>
  The test script's topic and emitter, with a transport that refuses to publish.
\<close>

theorem publish_handled_failure_witness:
  "topics (fst ready) ''test'' = Some (Topic ''test'')
   \<and> fst (topic_publish (Topic ''test'')
             (Buffer_from (JSON_stringify (envelope (Some (JObj [(''x'', JNum 1)])) (JObj []))))
             (refusing (Publish ''test'') (snd ready))) = Inl (ServiceError ''UNAVAILABLE'')
   \<and> 0 < listenerCount (emitter (fst ready)) ''error''
   \<and> fst (publish ''test'' (Some (JObj [(''x'', JNum 1)])) (JObj []) True
             (fst ready, refusing (Publish ''test'') (snd ready))) = Inr ()
   \<and> emitted (emitter (fst (after (publish ''test'' (Some (JObj [(''x'', JNum 1)])) (JObj []) True
             (fst ready, refusing (Publish ''test'') (snd ready))))))
       = emitted (emitter (fst ready))
         @ [ErrorEvent ''pubsub''
              (Some (JObj [(''topicName'', JStr ''test''),
                           (''message'', JObj [(''x'', JNum 1)]),
                           (''options'', JObj [])]))
              (ServiceError ''UNAVAILABLE'')]"
proof -
  have t: "topics (fst ready) ''test'' = Some (Topic ''test'')"
    by (simp add: ready_topics)
  have f: "fst (topic_publish (Topic ''test'')
             (Buffer_from (JSON_stringify (envelope (Some (JObj [(''x'', JNum 1)])) (JObj []))))
             (refusing (Publish ''test'') (snd ready))) = Inl (ServiceError ''UNAVAILABLE'')"
    by (simp add: topic_publish_def refusing_def)
  have l: "0 < listenerCount (emitter (fst ready)) ''error''"
    by (simp add: ready_listens)
  show ?thesis
    using publish_handled_failure [OF t f l] t f l
    by (simp add: ready_name js_object_def List.map_filter_simps)
qed

text \<open>
  C5, as the claim states it, fails: \<^verbatim>\<open>publish\<close> validates nothing. A meta object
  with the field \<^verbatim>\<open>priority\<close> is published as it is, and no error is reported.
\<close>

theorem publish_unknown_meta_field_accepted:
  "fst (publish ''test'' (Some (JObj [(''message'', JStr ''one'')]))
          (JObj [(''priority'', JNum 9)]) True ready) = Inr ()
   \<and> emitter (fst (after (publish ''test'' (Some (JObj [(''message'', JStr ''one'')]))
          (JObj [(''priority'', JNum 9)]) True ready))) = emitter (fst ready)
   \<and> published (snd (after (publish ''test'' (Some (JObj [(''message'', JStr ''one'')]))
          (JObj [(''priority'', JNum 9)]) True ready)))
       = [(''test'', Buffer_from (JSON_stringify
             (JObj [(''content'', JObj [(''message'', JStr ''one'')]),
                    (''meta'', JObj [(''priority'', JNum 9)])])))]"
  by (simp add: ready_eq publish_def topic_publish_def after_def issue_def
        envelope_def js_object_def List.map_filter_simps)

text \<open>
  C5, amended. \<^verbatim>\<open>publish\<close> performs no validation of meta: for every meta value,
  whatever its fields, a publish on a registered topic that the transport accepts hands
  the transport the serialised envelope, which reads back as the content and the meta
  unchanged; the fields \<^verbatim>\<open>replyTo\<close> and \<^verbatim>\<open>correlationId\<close> pass through like
  any other.
\<close>

theorem publish_meta_unchecked:
  assumes "topics s topicName = Some topic"
    and "faults w (Publish (topic_name topic)) = None"
    and "topic_name topic \<in> remote_topics w"
  shows "fst (publish topicName content meta handle (s, w)) = Inr ()
    \<and> published (snd (after (publish topicName content meta handle (s, w))))
        = published w @ [(topic_name topic, Buffer_from (JSON_stringify (envelope content meta)))]
    \<and> JSON_parse (toString (Buffer_from (JSON_stringify (envelope content meta))))
        = Some (js_object [(''content'', content), (''meta'', Some meta)])"
proof -
  have "publish topicName content meta handle (s, w)
      = (Inr (), s,
         issue (Publish (topic_name topic))
           (w\<lparr>published := published w
              @ [(topic_name topic, Buffer_from (JSON_stringify (envelope content meta)))]\<rparr>))"
    using assms by (simp add: publish_def topic_publish_def)
  then show ?thesis
    by (simp add: after_def issue_def toString_Buffer_from JSON_parse_stringify envelope_def)
qed

text \<open>
  A meta object with \<^verbatim>\<open>replyTo\<close> and \<^verbatim>\<open>correlationId\<close>.
\<close>

theorem publish_meta_unchecked_witness:
  "topics (fst ready) ''test'' = Some (Topic ''test'')
   \<and> faults (snd ready) (Publish (topic_name (Topic ''test''))) = None
   \<and> topic_name (Topic ''test'') \<in> remote_topics (snd ready)
   \<and> published (snd (after (publish ''test'' (Some (JObj [(''message'', JStr ''one'')]))
          (JObj [(''replyTo'', JStr ''answers''), (''correlationId'', JStr ''42'')]) True ready)))
       = [(''test'', Buffer_from (JSON_stringify
             (JObj [(''content'', JObj [(''message'', JStr ''one'')]),
                    (''meta'', JObj [(''replyTo'', JStr ''answers''),
                                     (''correlationId'', JStr ''42'')])])))]"
proof -
  have t: "topics (fst ready) ''test'' = Some (Topic ''test'')"
    by (simp add: ready_topics)
  have f: "faults (snd ready) (Publish (topic_name (Topic ''test''))) = None"
    by (simp add: ready_world quiet_def)
  have r: "topic_name (Topic ''test'') \<in> remote_topics (snd ready)"
    by (simp add: ready_world)
  have p: "published (snd ready) = []"
    by (simp add: ready_world quiet_def)
  show ?thesis
    using publish_meta_unchecked [OF t f r, of "Some (JObj [(''message'', JStr ''one'')])"
        "JObj [(''replyTo'', JStr ''answers''), (''correlationId'', JStr ''42'')]" True] t f r
    by (simp add: p envelope_def js_object_def List.map_filter_simps)
qed

end
